theory Spec2Isabelle
  imports Complex_Main
begin

section \<open>Numeric arrays\<close>

text \<open>
  The class \<open>LogisticRegression\<close> of \<open>LogisticRegression/logisticregression.py\<close> computes
  on numpy arrays of 64-bit floats. The embedding reads every float as a real number:
  a one-dimensional array is a list of reals, a two-dimensional array is its list of rows
  together with its column count (so that the shape \<open>(0, F)\<close> keeps its \<open>F\<close>). Rounding,
  overflow and the saturation of \<open>exp\<close> are therefore outside this part of the model; the
  only non-finite values kept are the two the control flow of \<open>fit\<close> depends on for every
  input: the initial \<open>best_loss = float('inf')\<close> and the \<open>nan\<close> that \<open>np.mean\<close> returns on
  an empty array. The activation function, whose range is not the same on floats as on
  reals, is embedded a second time with the rounding of 64-bit floats.

  What numpy raises is a value of \<open>error\<close>: \<open>ValueError\<close> for operands whose shapes do
  not fit, \<open>ZeroDivisionError\<close> for the Python division \<open>1 / num_samples\<close>, \<open>TypeError\<close>
  for arithmetic on \<open>None\<close>.
\<close>

datatype error = ValueError | ZeroDivisionError | TypeError

type_synonym vec = "real list"

record matrix =
  n_cols :: nat
  rows :: "real list list"

definition n_rows :: "matrix \<Rightarrow> nat" where
  "n_rows X = length (rows X)"

definition well_shaped :: "matrix \<Rightarrow> bool" where
  "well_shaped X = list_all (\<lambda>r. length r = n_cols X) (rows X)"

datatype npfloat = Fin real | PInf | NaN

fun np_less :: "npfloat \<Rightarrow> npfloat \<Rightarrow> bool" where
  "np_less (Fin x) (Fin y) = (x < y)"
| "np_less (Fin x) PInf = True"
| "np_less _ _ = False"

definition bind :: "error + 'a \<Rightarrow> ('a \<Rightarrow> error + 'b) \<Rightarrow> error + 'b" where
  "bind m f = (case m of Inl e \<Rightarrow> Inl e | Inr x \<Rightarrow> f x)"

text \<open>\<open>np.dot(X, w)\<close> for \<open>X\<close> of shape \<open>(N, F)\<close> and \<open>w\<close> of shape \<open>(F',)\<close>.\<close>

definition inner :: "vec \<Rightarrow> vec \<Rightarrow> real" where
  "inner r w = sum_list (map2 (*) r w)"

definition dot_mv :: "matrix \<Rightarrow> vec \<Rightarrow> error + vec" where
  "dot_mv X w =
     (if n_cols X = length w then Inr (map (\<lambda>r. inner r w) (rows X)) else Inl ValueError)"

text \<open>\<open>np.dot(X.T, v)\<close> for \<open>X\<close> of shape \<open>(N, F)\<close> and \<open>v\<close> of shape \<open>(N',)\<close>.\<close>

definition column :: "matrix \<Rightarrow> nat \<Rightarrow> vec" where
  "column X j = map (\<lambda>r. r ! j) (rows X)"

definition dot_tv :: "matrix \<Rightarrow> vec \<Rightarrow> error + vec" where
  "dot_tv X v =
     (if n_rows X = length v then Inr (map (\<lambda>j. inner (column X j) v) [0..<n_cols X])
      else Inl ValueError)"

text \<open>
  An element-wise binary operation on two one-dimensional arrays, with numpy's
  broadcasting: equal lengths combine pointwise, an array of length 1 is stretched to the
  length of the other, anything else raises.
\<close>

definition broadcast :: "(real \<Rightarrow> real \<Rightarrow> real) \<Rightarrow> vec \<Rightarrow> vec \<Rightarrow> error + vec" where
  "broadcast f xs ys =
     (if length xs = length ys then Inr (map2 f xs ys)
      else if length xs = 1 then Inr (map (f (hd xs)) ys)
      else if length ys = 1 then Inr (map (\<lambda>x. f x (hd ys)) xs)
      else Inl ValueError)"

definition np_mean :: "vec \<Rightarrow> npfloat" where
  "np_mean xs = (if xs = [] then NaN else Fin (sum_list xs / real (length xs)))"

section \<open>The classifier\<close>

record model =
  weights :: "vec option"
  bias :: "real option"
  threshold :: real
  learning_rate :: real
  max_iteration :: int
  patience :: "int option"

definition init :: "real \<Rightarrow> int \<Rightarrow> int option \<Rightarrow> real \<Rightarrow> model" where
  "init lr max_it pat thr =
     \<lparr>weights = None, bias = None, threshold = thr, learning_rate = lr,
      max_iteration = max_it, patience = pat\<rparr>"

definition sigmoid1 :: "real \<Rightarrow> real" where
  "sigmoid1 z = 1 / (1 + exp (- z))"

definition sigmoid :: "vec \<Rightarrow> vec" where
  "sigmoid Z = map sigmoid1 Z"

text \<open>\<open>sigmoid(np.dot(X, weights) + bias)\<close>, the forward pass of \<open>fit\<close> and \<open>predict\<close>.\<close>

definition forward :: "matrix \<Rightarrow> vec \<Rightarrow> real \<Rightarrow> error + vec" where
  "forward X w b = bind (dot_mv X w) (\<lambda>d. Inr (sigmoid (map (\<lambda>v. v + b) d)))"

text \<open>
  \<open>np.mean(-(np.multiply(y, np.log(y_pred)) + np.multiply((1 - y), np.log(1 - y_pred))))\<close>
\<close>

definition mean_log_loss :: "vec \<Rightarrow> vec \<Rightarrow> error + npfloat" where
  "mean_log_loss y y_pred =
     bind (broadcast (*) y (map ln y_pred)) (\<lambda>t1.
     bind (broadcast (*) (map (\<lambda>v. 1 - v) y) (map (\<lambda>p. ln (1 - p)) y_pred)) (\<lambda>t2.
     bind (broadcast (+) t1 t2) (\<lambda>s.
     Inr (np_mean (map uminus s)))))"

subsection \<open>fit\<close>

text \<open>
  The state of the training loop: the two attributes \<open>self.weights\<close> and \<open>self.bias\<close>
  that the loop mutates (the fields \<open>self_weights\<close> and \<open>self_bias\<close>), the locals of
  \<open>fit\<close>, and what the loop prints: the list
  \<open>train_losses\<close> holds the losses printed every 100th iteration, and \<open>stopped_early\<close>
  the iteration number \<open>i + 1\<close> of the early-stopping message. The plot drawn after the
  loop shows \<open>train_losses\<close> and \<open>val_losses\<close> and changes nothing; it is left out, and
  with it the flag \<open>plot_loss\<close>.
\<close>

record fit_state =
  self_weights :: vec
  self_bias :: real
  best_loss :: npfloat
  no_improvement_count :: nat
  train_losses :: "npfloat list"
  val_losses :: "npfloat list option"
  stopped_early :: "nat option"

datatype 'a flow = Continue 'a | Break 'a

text \<open>Lines 116 to 134: the validation loss, the bookkeeping and the decision to stop.\<close>

definition should_stop :: "int option \<Rightarrow> nat \<Rightarrow> bool" where
  "should_stop pat c = (case pat of None \<Rightarrow> False | Some p \<Rightarrow> p \<noteq> 0 \<and> p \<le> int c)"

definition validate ::
  "matrix \<Rightarrow> vec \<Rightarrow> int option \<Rightarrow> bool \<Rightarrow> nat \<Rightarrow> fit_state \<Rightarrow> error + fit_state flow" where
  "validate X_val y_val pat print_loss i st =
     bind (forward X_val (self_weights st) (self_bias st)) (\<lambda>y_pred_val.
     bind (mean_log_loss y_val y_pred_val) (\<lambda>val_loss.
       let st1 = (if print_loss \<and> i mod 100 = 0
                  then st\<lparr>val_losses := map_option (\<lambda>l. l @ [val_loss]) (val_losses st)\<rparr>
                  else st);
           st2 = (if np_less val_loss (best_loss st1)
                  then st1\<lparr>best_loss := val_loss, no_improvement_count := 0\<rparr>
                  else st1\<lparr>no_improvement_count := no_improvement_count st1 + 1\<rparr>)
       in if should_stop pat (no_improvement_count st2)
          then Inr (Break (st2\<lparr>stopped_early := Some (i + 1)\<rparr>))
          else Inr (Continue st2)))"

text \<open>Lines 136 to 141: the gradient and the update of the parameters.\<close>

definition gradient_descend ::
  "matrix \<Rightarrow> vec \<Rightarrow> real \<Rightarrow> vec \<Rightarrow> vec \<times> real \<Rightarrow> error + vec \<times> real" where
  "gradient_descend X_train y_train lr y_pred p =
     (if n_rows X_train = 0 then Inl ZeroDivisionError
      else
        bind (broadcast (-) y_pred y_train) (\<lambda>diff.
        bind (dot_tv X_train diff) (\<lambda>g.
          let dw = map (\<lambda>v. (1 / real (n_rows X_train)) * v) g;
              db = (1 / real (n_rows X_train)) * sum_list diff
          in Inr (map2 (\<lambda>wj dj. wj - lr * dj) (fst p) dw, snd p - lr * db))))"

text \<open>The body of the loop at index \<open>i\<close>.\<close>

definition fit_iter ::
  "matrix \<Rightarrow> vec \<Rightarrow> matrix option \<Rightarrow> vec option \<Rightarrow> int option \<Rightarrow> bool \<Rightarrow> real
     \<Rightarrow> nat \<Rightarrow> fit_state \<Rightarrow> error + fit_state flow" where
  "fit_iter X_train y_train X_val y_val pat print_loss lr i st =
     bind (forward X_train (self_weights st) (self_bias st)) (\<lambda>y_pred.
     bind (mean_log_loss y_train y_pred) (\<lambda>loss.
       let st1 = (if print_loss \<and> i mod 100 = 0
                  then st\<lparr>train_losses := train_losses st @ [loss]\<rparr> else st)
       in bind (case (X_val, y_val) of
                  (Some Xv, Some yv) \<Rightarrow> validate Xv yv pat print_loss i st1
                | _ \<Rightarrow> Inr (Continue st1))
            (\<lambda>r. case r of
                Break st2 \<Rightarrow> Inr (Break st2)
              | Continue st2 \<Rightarrow>
                  bind (gradient_descend X_train y_train lr y_pred (self_weights st2, self_bias st2))
                    (\<lambda>(w', b'). Inr (Continue (st2\<lparr>self_weights := w', self_bias := b'\<rparr>))))))"

text \<open>\<open>for i in range(self.max_iteration)\<close>, over the indices still to run.\<close>

fun fit_loop ::
  "matrix \<Rightarrow> vec \<Rightarrow> matrix option \<Rightarrow> vec option \<Rightarrow> int option \<Rightarrow> bool \<Rightarrow> real
     \<Rightarrow> nat list \<Rightarrow> fit_state \<Rightarrow> error + fit_state" where
  "fit_loop X_train y_train X_val y_val pat print_loss lr [] st = Inr st"
| "fit_loop X_train y_train X_val y_val pat print_loss lr (i # is) st =
     (case fit_iter X_train y_train X_val y_val pat print_loss lr i st of
        Inl e \<Rightarrow> Inl e
      | Inr (Break st') \<Rightarrow> Inr st'
      | Inr (Continue st') \<Rightarrow> fit_loop X_train y_train X_val y_val pat print_loss lr is st')"

definition initial_state :: "matrix \<Rightarrow> matrix option \<Rightarrow> vec option \<Rightarrow> fit_state" where
  "initial_state X_train X_val y_val =
     \<lparr>self_weights = replicate (n_cols X_train) 0, self_bias = 0, best_loss = PInf, no_improvement_count = 0,
      train_losses = [],
      val_losses = (if X_val \<noteq> None \<and> y_val \<noteq> None then Some [] else None),
      stopped_early = None\<rparr>"

text \<open>
  \<open>fit\<close> returns the model after training together with the final state of the loop
  (its traces and messages). The argument \<open>pat\<close> is the parameter \<open>patience\<close> of \<open>fit\<close>.
\<close>

definition fit ::
  "model \<Rightarrow> matrix \<Rightarrow> vec \<Rightarrow> matrix option \<Rightarrow> vec option \<Rightarrow> int option \<Rightarrow> bool
     \<Rightarrow> error + model \<times> fit_state" where
  "fit m X_train y_train X_val y_val pat print_loss =
     bind (fit_loop X_train y_train X_val y_val pat print_loss (learning_rate m)
             [0..<nat (max_iteration m)] (initial_state X_train X_val y_val))
       (\<lambda>st. Inr (m\<lparr>weights := Some (self_weights st), bias := Some (self_bias st)\<rparr>, st))"

subsection \<open>predict\<close>

definition predict :: "model \<Rightarrow> matrix \<Rightarrow> error + int list" where
  "predict m X_test =
     (case (weights m, bias m) of
        (Some wv, Some bv) \<Rightarrow>
          bind (forward X_test wv bv) (\<lambda>y_pred.
            Inr (map (\<lambda>i. if i > threshold m then 1 else 0) y_pred))
      | _ \<Rightarrow> Inl TypeError)"

section \<open>The activation function on 64-bit floats\<close>

text \<open>
  IEEE 754 binary64, as far as \<open>1 / (1 + np.exp(-Z))\<close> needs it. A finite float is the real
  it denotes. Around a real \<open>x\<close> the floats are the integer multiples of \<open>quantum x\<close>: of
  \<open>2^(e - 52)\<close> when \<open>2^e \<le> |x| < 2^(e + 1)\<close>, and of \<open>2^(-1074)\<close> below \<open>2^(-1022)\<close> (gradual
  underflow). \<open>fl64\<close> rounds to the nearest of them, a tie to the even multiple, and
  overflows to \<open>inf\<close> when that multiple reaches \<open>2^1024\<close>. The three values rounded in the
  sigmoid are positive (the exponential, 1 plus it, and the reciprocal), so \<open>inf\<close> is the
  only infinity. \<open>np.exp\<close> is read as the correctly rounded exponential.
\<close>

definition round_even :: "real \<Rightarrow> int" where
  "round_even x =
     (if x - of_int \<lfloor>x\<rfloor> < 1 / 2 then \<lfloor>x\<rfloor>
      else if 1 / 2 < x - of_int \<lfloor>x\<rfloor> then \<lfloor>x\<rfloor> + 1
      else if even \<lfloor>x\<rfloor> then \<lfloor>x\<rfloor> else \<lfloor>x\<rfloor> + 1)"

definition quantum :: "real \<Rightarrow> real" where
  "quantum x = 2 powr (of_int (max \<lfloor>log 2 \<bar>x\<bar>\<rfloor> (- 1022)) - 52)"

definition overflow_threshold :: real where
  "overflow_threshold = 2 ^ 1024"

definition fl64 :: "real \<Rightarrow> npfloat" where
  "fl64 x =
     (if x = 0 then Fin 0
      else if overflow_threshold \<le> of_int (round_even (x / quantum x)) * quantum x then PInf
      else Fin (of_int (round_even (x / quantum x)) * quantum x))"

definition np_exp :: "real \<Rightarrow> npfloat" where
  "np_exp x = fl64 (exp x)"

text \<open>
  \<open>1 / (1 + np.exp(-z))\<close> on one float \<open>z\<close>: \<open>1 + inf\<close> is \<open>inf\<close> and \<open>1 / inf\<close> is \<open>0.0\<close>.
\<close>

definition sigmoid64 :: "real \<Rightarrow> npfloat" where
  "sigmoid64 z =
     (case np_exp (- z) of
        Fin t \<Rightarrow>
          (case fl64 (1 + t) of
             Fin d \<Rightarrow> (if d = 0 then PInf else fl64 (1 / d))
           | PInf \<Rightarrow> Fin 0
           | NaN \<Rightarrow> NaN)
      | PInf \<Rightarrow> Fin 0
      | NaN \<Rightarrow> NaN)"

section \<open>Reference notions for the properties\<close>

text \<open>
  One iteration of the loop without validation data, on the pair of parameters alone,
  and \<open>k\<close> such iterations in a row: the parameters after \<open>k\<close> updates.
\<close>

definition train_step :: "matrix \<Rightarrow> vec \<Rightarrow> real \<Rightarrow> vec \<times> real \<Rightarrow> error + vec \<times> real" where
  "train_step X_train y_train lr p =
     bind (forward X_train (fst p) (snd p)) (\<lambda>y_pred.
     bind (mean_log_loss y_train y_pred) (\<lambda>loss.
       gradient_descend X_train y_train lr y_pred p))"

fun train_steps :: "matrix \<Rightarrow> vec \<Rightarrow> real \<Rightarrow> nat \<Rightarrow> vec \<times> real \<Rightarrow> error + vec \<times> real" where
  "train_steps X_train y_train lr 0 p = Inr p"
| "train_steps X_train y_train lr (Suc k) p =
     bind (train_step X_train y_train lr p) (train_steps X_train y_train lr k)"

definition zero_params :: "matrix \<Rightarrow> vec \<times> real" where
  "zero_params X_train = (replicate (n_cols X_train) 0, 0)"

definition params :: "fit_state \<Rightarrow> vec \<times> real" where
  "params st = (self_weights st, self_bias st)"

definition trained :: "model \<Rightarrow> vec \<times> real \<Rightarrow> bool" where
  "trained m p = (weights m = Some (fst p) \<and> bias m = Some (snd p))"

text \<open>
  The validation loss that an iteration starting from the parameters \<open>p\<close> computes (after
  its training loss), and the validation loss of iteration \<open>k\<close> of a run that has not
  stopped before.
\<close>

definition val_loss_of :: "matrix \<Rightarrow> vec \<Rightarrow> matrix \<Rightarrow> vec \<Rightarrow> vec \<times> real \<Rightarrow> error + npfloat" where
  "val_loss_of X_train y_train X_val y_val p =
     bind (forward X_train (fst p) (snd p)) (\<lambda>y_pred.
     bind (mean_log_loss y_train y_pred) (\<lambda>loss.
     bind (forward X_val (fst p) (snd p)) (\<lambda>y_pred_val.
       mean_log_loss y_val y_pred_val)))"

definition val_loss_at ::
  "matrix \<Rightarrow> vec \<Rightarrow> matrix \<Rightarrow> vec \<Rightarrow> real \<Rightarrow> nat \<Rightarrow> error + npfloat" where
  "val_loss_at X_train y_train X_val y_val lr k =
     bind (train_steps X_train y_train lr k (zero_params X_train))
       (val_loss_of X_train y_train X_val y_val)"

text \<open>
  The bookkeeping of early stopping as the specification words it, on the list of the
  validation losses seen so far: a loss strictly below the best one becomes the best and
  resets the counter, any other loss increments the counter.
\<close>

fun track :: "npfloat \<times> nat \<Rightarrow> npfloat \<Rightarrow> npfloat \<times> nat" where
  "track (best, c) v = (if np_less v best then (v, 0) else (best, c + 1))"

definition best_seen :: "npfloat list \<Rightarrow> npfloat" where
  "best_seen vs = fst (foldl track (PInf, 0) vs)"

definition counter :: "npfloat list \<Rightarrow> nat" where
  "counter vs = snd (foldl track (PInf, 0) vs)"

text \<open>
  Whether the early-stopping check fires in the very first iteration: the iteration
  reaches its validation loss \<open>v\<close> from the zero parameters, and the counter that \<open>v\<close>
  leaves is enough for the patience.
\<close>

definition first_check_stops ::
  "matrix \<Rightarrow> vec \<Rightarrow> matrix option \<Rightarrow> vec option \<Rightarrow> int option \<Rightarrow> bool" where
  "first_check_stops X_train y_train X_val y_val pat =
     (case (X_val, y_val) of
        (Some Xv, Some yv) \<Rightarrow>
          (case val_loss_of X_train y_train Xv yv (zero_params X_train) of
             Inr v \<Rightarrow> should_stop pat (snd (track (PInf, 0) v))
           | Inl e \<Rightarrow> False)
      | _ \<Rightarrow> False)"

text \<open>
  The gradient step as the specification writes it, by indices: the linear score of
  sample \<open>i\<close>, the two components \<open>dw\<close> and \<open>db\<close> of the gradient, and the average
  binary cross-entropy loss they are the gradient of.
\<close>

definition score :: "matrix \<Rightarrow> vec \<Rightarrow> real \<Rightarrow> nat \<Rightarrow> real" where
  "score X wv bv i = (\<Sum>k<n_cols X. rows X ! i ! k * wv ! k) + bv"

definition grad_w :: "matrix \<Rightarrow> vec \<Rightarrow> vec \<Rightarrow> real \<Rightarrow> nat \<Rightarrow> real" where
  "grad_w X y wv bv j =
     (1 / real (n_rows X)) * (\<Sum>i<n_rows X. rows X ! i ! j * (sigmoid1 (score X wv bv i) - y ! i))"

definition grad_b :: "matrix \<Rightarrow> vec \<Rightarrow> vec \<Rightarrow> real \<Rightarrow> real" where
  "grad_b X y wv bv =
     (1 / real (n_rows X)) * (\<Sum>i<n_rows X. sigmoid1 (score X wv bv i) - y ! i)"

definition bce :: "matrix \<Rightarrow> vec \<Rightarrow> vec \<Rightarrow> real \<Rightarrow> real" where
  "bce X y wv bv =
     (1 / real (n_rows X)) *
     (\<Sum>i<n_rows X. - (y ! i * ln (sigmoid1 (score X wv bv i)) +
                        (1 - y ! i) * ln (1 - sigmoid1 (score X wv bv i))))"

section \<open>Data of the worked examples\<close>

text \<open>
  A training set on which every gradient vanishes (two equal samples with opposite
  labels), so that the parameters stay at zero and every loss is \<open>ln 2\<close>, with a
  validation set of one sample; and a test matrix for \<open>predict\<close>.
\<close>

definition X_flat :: matrix where
  "X_flat = \<lparr>n_cols = 1, rows = [[0], [0]]\<rparr>"

definition y_flat :: vec where
  "y_flat = [0, 1]"

definition Xv_flat :: matrix where
  "Xv_flat = \<lparr>n_cols = 1, rows = [[0]]\<rparr>"

definition yv_flat :: vec where
  "yv_flat = [0]"

definition X_one :: matrix where
  "X_one = \<lparr>n_cols = 1, rows = [[1], [0]]\<rparr>"

text \<open>Two samples with distinct features, and the state after one update on them.\<close>

definition y_one :: vec where "y_one = [1, 0]"

definition st_one :: fit_state where
  "st_one = \<lparr>self_weights = [1/400], self_bias = 0, best_loss = PInf, no_improvement_count = 0,
      train_losses = [Fin (ln 2)], val_losses = None, stopped_early = None\<rparr>"

text \<open>A validation set without samples, of shape \<open>(0, 1)\<close>.\<close>

definition X_empty :: matrix where
  "X_empty = \<lparr>n_cols = 1, rows = []\<rparr>"

section \<open>The logical AND data\<close>

text \<open>
  The end-to-end scenario: the four points of the unit square labelled by logical AND.
  The two columns of \<open>X_and\<close> are exchanged by a permutation of the samples that keeps the
  labels, so from zero weights the two weights stay equal, and one iteration of the loop
  at learning rate \<open>1/10\<close> acts on the pair (common weight, bias) as \<open>and_step\<close>.
\<close>

definition X_and :: matrix where
  "X_and = \<lparr>n_cols = 2, rows = [[0, 0], [0, 1], [1, 0], [1, 1]]\<rparr>"

definition y_and :: vec where
  "y_and = [0, 0, 0, 1]"

definition and_step :: "real \<times> real \<Rightarrow> real \<times> real" where
  "and_step p =
     (fst p - (sigmoid1 (fst p + snd p) + sigmoid1 (2 * fst p + snd p) - 1) / 40,
      snd p - (sigmoid1 (snd p) + 2 * sigmoid1 (fst p + snd p) +
               sigmoid1 (2 * fst p + snd p) - 1) / 40)"

text \<open>
  A set of parameters that \<open>and_step\<close> never leaves and on which the two predictions of
  the scenario are decided: \<open>exp b \<le> 1/6\<close> and \<open>101/100 \<le> exp (2 w + b)\<close>.
\<close>

definition region :: "real \<times> real \<Rightarrow> bool" where
  "region p \<longleftrightarrow> exp (snd p) \<le> 1 / 6 \<and> 101 / 100 \<le> exp (2 * fst p + snd p)"

subsection \<open>Enclosures of the first iterations\<close>

text \<open>
  The first iterations are followed in the coordinates \<open>(exp w, exp b)\<close> by intervals with
  endpoints in fixed point: the integer \<open>a\<close> stands for the real \<open>a / 2^24\<close>. Every operation
  comes in two versions, rounded down for lower bounds and rounded up for upper bounds.
\<close>

definition ONE :: int where
  "ONE = 16777216"

definition fx :: "int \<Rightarrow> real" where
  "fx a = real_of_int a / real_of_int ONE"

definition mul_dn :: "int \<Rightarrow> int \<Rightarrow> int" where
  "mul_dn a b = drop_bit 24 (a * b)"

definition mul_up :: "int \<Rightarrow> int \<Rightarrow> int" where
  "mul_up a b = - drop_bit 24 (- (a * b))"

definition div_dn :: "int \<Rightarrow> int \<Rightarrow> int" where
  "div_dn a b = (a * ONE) div b"

definition div_up :: "int \<Rightarrow> int \<Rightarrow> int" where
  "div_up a b = - ((- (a * ONE)) div b)"

definition cdiv :: "int \<Rightarrow> int \<Rightarrow> int" where
  "cdiv a k = - ((- a) div k)"

definition sig_dn :: "int \<Rightarrow> int" where
  "sig_dn x = div_dn x (ONE + x)"

definition sig_up :: "int \<Rightarrow> int" where
  "sig_up x = div_up x (ONE + x)"

text \<open>
  Bounds of \<open>exp (n / 40)\<close> for \<open>n\<close> in fixed point, by the Taylor polynomial of degree 3
  (the remainder on \<open>[0, 1/8]\<close> is at most \<open>x^3 / 30\<close>, hence the 5), and through the
  reciprocal for a negative argument.
\<close>

definition tay_dn3 :: "int \<Rightarrow> int \<Rightarrow> int \<Rightarrow> int" where
  "tay_dn3 z z2 z3 = ONE + z + z2 div 2 + z3 div 6"

definition tay_dn2 :: "int \<Rightarrow> int \<Rightarrow> int" where
  "tay_dn2 z z2 = tay_dn3 z z2 (mul_dn z2 z)"

definition tay_dn1 :: "int \<Rightarrow> int" where
  "tay_dn1 z = tay_dn2 z (mul_dn z z)"

definition tay_dn :: "int \<Rightarrow> int" where
  "tay_dn n = tay_dn1 (n div 40)"

definition tay_up3 :: "int \<Rightarrow> int \<Rightarrow> int \<Rightarrow> int" where
  "tay_up3 z z2 z3 = ONE + z + cdiv z2 2 + cdiv z3 5"

definition tay_up2 :: "int \<Rightarrow> int \<Rightarrow> int" where
  "tay_up2 z z2 = tay_up3 z z2 (mul_up z2 z)"

definition tay_up1 :: "int \<Rightarrow> int" where
  "tay_up1 z = tay_up2 z (mul_up z z)"

definition tay_up :: "int \<Rightarrow> int" where
  "tay_up n = tay_up1 (cdiv n 40)"

definition e_dn :: "int \<Rightarrow> int" where
  "e_dn n = (if 0 \<le> n then tay_dn n else div_dn ONE (tay_up (- n)))"

definition e_up :: "int \<Rightarrow> int" where
  "e_up n = (if 0 \<le> n then tay_up n else div_up ONE (tay_dn (- n)))"

text \<open>
  One iteration on a box \<open>(ul, uh, vl, vh)\<close> that encloses \<open>exp w\<close> in \<open>[ul, uh]\<close> and \<open>exp b\<close>
  in \<open>[vl, vh]\<close>: the sigmoid of \<open>z\<close> is \<open>exp z / (1 + exp z)\<close>, and the new coordinates are the
  old ones times the exponential of the update.
\<close>

type_synonym box = "int \<times> int \<times> int \<times> int"

definition box_step3 ::
  "int \<Rightarrow> int \<Rightarrow> int \<Rightarrow> int \<Rightarrow> int \<Rightarrow> int \<Rightarrow> int \<Rightarrow> int \<Rightarrow> box option" where
  "box_step3 ul uh vl vh nwl nwh nbl nbh =
     (if 0 < ul \<and> 0 < vl \<and> - (5 * ONE) \<le> nwl \<and> nwh \<le> 5 * ONE \<and>
         - (5 * ONE) \<le> nbl \<and> nbh \<le> 5 * ONE
      then Some (mul_dn ul (e_dn nwl), mul_up uh (e_up nwh),
                 mul_dn vl (e_dn nbl), mul_up vh (e_up nbh))
      else None)"

definition box_step2 ::
  "int \<Rightarrow> int \<Rightarrow> int \<Rightarrow> int \<Rightarrow> int \<Rightarrow> int \<Rightarrow> int \<Rightarrow> int \<Rightarrow> int \<Rightarrow> int \<Rightarrow> box option" where
  "box_step2 ul uh vl vh sal sah scl sch sdl sdh =
     box_step3 ul uh vl vh (ONE - sch - sdh) (ONE - scl - sdl)
       (ONE - sah - 2 * sch - sdh) (ONE - sal - 2 * scl - sdl)"

definition box_step1 ::
  "int \<Rightarrow> int \<Rightarrow> int \<Rightarrow> int \<Rightarrow> int \<Rightarrow> int \<Rightarrow> box option" where
  "box_step1 ul uh vl vh pl ph =
     box_step2 ul uh vl vh (sig_dn vl) (sig_up vh) (sig_dn pl) (sig_up ph)
       (sig_dn (mul_dn ul pl)) (sig_up (mul_up uh ph))"

definition box_step :: "box \<Rightarrow> box option" where
  "box_step B =
     (case B of (ul, uh, vl, vh) \<Rightarrow> box_step1 ul uh vl vh (mul_dn ul vl) (mul_up uh vh))"

fun box_steps :: "nat \<Rightarrow> box \<Rightarrow> box option" where
  "box_steps 0 B = Some B"
| "box_steps (Suc k) B = (case box_step B of None \<Rightarrow> None | Some B' \<Rightarrow> box_steps k B')"

definition contains :: "box \<Rightarrow> real \<times> real \<Rightarrow> bool" where
  "contains B p =
     (case B of (ul, uh, vl, vh) \<Rightarrow>
        fx ul \<le> exp (fst p) \<and> exp (fst p) \<le> fx uh \<and>
        fx vl \<le> exp (snd p) \<and> exp (snd p) \<le> fx vh)"

section \<open>One iteration of the loop\<close>

lemma bind_Inl [simp]: "bind (Inl e) f = Inl e"
  by (simp add: bind_def)

lemma bind_Inr [simp]: "bind (Inr x) f = f x"
  by (simp add: bind_def)

lemma bind_eq_Inr: "bind m f = Inr y \<longleftrightarrow> (\<exists>x. m = Inr x \<and> f x = Inr y)"
  by (cases m) simp_all

lemma validate_cases:
  assumes "validate Xv yv pat pl i st = Inr r"
  shows "\<exists>v. bind (forward Xv (self_weights st) (self_bias st)) (mean_log_loss yv) = Inr v \<and>
           (case r of
              Break st' \<Rightarrow> should_stop pat (snd (track (best_loss st, no_improvement_count st) v)) \<and>
                 params st' = params st \<and> stopped_early st' = Some (Suc i) \<and>
                 (best_loss st', no_improvement_count st') = track (best_loss st, no_improvement_count st) v \<and>
                 train_losses st' = train_losses st
            | Continue st' \<Rightarrow> \<not> should_stop pat (snd (track (best_loss st, no_improvement_count st) v)) \<and>
                 params st' = params st \<and> stopped_early st' = stopped_early st \<and>
                 (best_loss st', no_improvement_count st') = track (best_loss st, no_improvement_count st) v \<and>
                 train_losses st' = train_losses st)"
  using assms
  unfolding validate_def
  by (auto simp: bind_eq_Inr Let_def params_def split: if_splits)


lemma fit_iter_cases:
  assumes "fit_iter X y X_val y_val pat pl lr i st = Inr r"
  shows "case r of
      Break st' \<Rightarrow>
        (\<exists>Xv yv v. X_val = Some Xv \<and> y_val = Some yv \<and>
           val_loss_of X y Xv yv (params st) = Inr v \<and>
           should_stop pat (snd (track (best_loss st, no_improvement_count st) v)) \<and>
           (best_loss st', no_improvement_count st') =
             track (best_loss st, no_improvement_count st) v) \<and>
        params st' = params st \<and> stopped_early st' = Some (Suc i)
    | Continue st' \<Rightarrow>
        train_step X y lr (params st) = Inr (params st') \<and>
        stopped_early st' = stopped_early st \<and>
        length (train_losses st') =
          length (train_losses st) + (if pl \<and> i mod 100 = 0 then 1 else 0) \<and>
        (case (X_val, y_val) of
           (Some Xv, Some yv) \<Rightarrow>
             (\<exists>v. val_loss_of X y Xv yv (params st) = Inr v \<and>
                \<not> should_stop pat (snd (track (best_loss st, no_improvement_count st) v)) \<and>
                (best_loss st', no_improvement_count st') =
                  track (best_loss st, no_improvement_count st) v)
         | _ \<Rightarrow> best_loss st' = best_loss st \<and>
                no_improvement_count st' = no_improvement_count st \<and>
                val_losses st' = val_losses st)"
proof -
  from assms obtain y_pred loss r1 where
    fw: "forward X (self_weights st) (self_bias st) = Inr y_pred" and
    ls: "mean_log_loss y y_pred = Inr loss" and
    r1: "(case (X_val, y_val) of
            (Some Xv, Some yv) \<Rightarrow> validate Xv yv pat pl i
               (if pl \<and> i mod 100 = 0 then st\<lparr>train_losses := train_losses st @ [loss]\<rparr> else st)
          | _ \<Rightarrow> Inr (Continue
               (if pl \<and> i mod 100 = 0 then st\<lparr>train_losses := train_losses st @ [loss]\<rparr> else st)))
         = Inr r1" and
    r: "(case r1 of Break st2 \<Rightarrow> Inr (Break st2)
         | Continue st2 \<Rightarrow>
             bind (gradient_descend X y lr y_pred (self_weights st2, self_bias st2))
               (\<lambda>(w', b'). Inr (Continue (st2\<lparr>self_weights := w', self_bias := b'\<rparr>)))) = Inr r"
    unfolding fit_iter_def by (auto simp: bind_eq_Inr Let_def)
  let ?st1 = "if pl \<and> i mod 100 = 0 then st\<lparr>train_losses := train_losses st @ [loss]\<rparr> else st"
  have st1: "params ?st1 = params st" "self_weights ?st1 = self_weights st"
    "self_bias ?st1 = self_bias st" "best_loss ?st1 = best_loss st"
    "no_improvement_count ?st1 = no_improvement_count st" "stopped_early ?st1 = stopped_early st"
    "val_losses ?st1 = val_losses st"
    "length (train_losses ?st1) = length (train_losses st) + (if pl \<and> i mod 100 = 0 then 1 else 0)"
    by (simp_all add: params_def)
  have ts: "train_step X y lr (params st) = gradient_descend X y lr y_pred (params st)"
    unfolding train_step_def using fw ls by (simp add: params_def)
  show ?thesis
  proof (cases "\<exists>Xv yv. X_val = Some Xv \<and> y_val = Some yv")
    case True
    then obtain Xv yv where xy: "X_val = Some Xv" "y_val = Some yv" by blast
    with r1 have v: "validate Xv yv pat pl i ?st1 = Inr r1" by simp
    from validate_cases[OF v] obtain v where
      vl: "bind (forward Xv (self_weights st) (self_bias st)) (mean_log_loss yv) = Inr v" and
      c: "(case r1 of
              Break st' \<Rightarrow> should_stop pat (snd (track (best_loss st, no_improvement_count st) v)) \<and>
                 params st' = params st \<and> stopped_early st' = Some (Suc i) \<and>
                 (best_loss st', no_improvement_count st') = track (best_loss st, no_improvement_count st) v \<and>
                 train_losses st' = train_losses ?st1
            | Continue st' \<Rightarrow> \<not> should_stop pat (snd (track (best_loss st, no_improvement_count st) v)) \<and>
                 params st' = params st \<and> stopped_early st' = stopped_early st \<and>
                 (best_loss st', no_improvement_count st') = track (best_loss st, no_improvement_count st) v \<and>
                 train_losses st' = train_losses ?st1)"
      unfolding st1 by blast
    have vo: "val_loss_of X y Xv yv (params st) = Inr v"
      unfolding val_loss_of_def using fw ls vl by (simp add: params_def bind_def)
    show ?thesis
    proof (cases r1)
      case (Break st2)
      with r have "r = Break st2" by simp
      with c Break vo xy show ?thesis by auto
    next
      case (Continue st2)
      with r obtain w' b' where
        g: "gradient_descend X y lr y_pred (self_weights st2, self_bias st2) = Inr (w', b')" and
        rr: "r = Continue (st2\<lparr>self_weights := w', self_bias := b'\<rparr>)"
        by (auto simp: bind_eq_Inr)
      from c Continue have p2: "params st2 = params st" by simp
      then have "gradient_descend X y lr y_pred (params st) = Inr (w', b')"
        using g by (simp add: params_def)
      with ts have "train_step X y lr (params st) = Inr (w', b')" by simp
      with rr c Continue vo xy st1(8) show ?thesis
        by (auto simp: params_def)
    qed
  next
    case False
    then have r1': "r1 = Continue ?st1" using r1
      by (cases X_val; cases y_val) auto
    with r obtain w' b' where
      g: "gradient_descend X y lr y_pred (self_weights ?st1, self_bias ?st1) = Inr (w', b')" and
      rr: "r = Continue (?st1\<lparr>self_weights := w', self_bias := b'\<rparr>)"
      by (auto simp: bind_eq_Inr)
    have "gradient_descend X y lr y_pred (params st) = Inr (w', b')"
      using g unfolding st1 by (simp add: params_def)
    with ts have t: "train_step X y lr (params st) = Inr (w', b')" by simp
    show ?thesis unfolding rr using t False
      by (cases X_val; cases y_val) (auto simp: params_def)
  qed
qed


lemma bind_eq_Inl: "bind m f = Inl e \<longleftrightarrow> m = Inl e \<or> (\<exists>x. m = Inr x \<and> f x = Inl e)"
  by (cases m) simp_all

lemma validate_error:
  assumes "validate Xv yv pat pl i st = Inl e"
  shows "bind (forward Xv (self_weights st) (self_bias st)) (mean_log_loss yv) = Inl e"
  using assms unfolding validate_def
  by (auto simp: bind_eq_Inl Let_def split: if_splits)

lemma fit_iter_error:
  assumes "fit_iter X y X_val y_val pat pl lr i st = Inl e"
  shows "case (X_val, y_val) of
      (Some Xv, Some yv) \<Rightarrow>
        val_loss_of X y Xv yv (params st) = Inl e \<or>
        (\<exists>v. val_loss_of X y Xv yv (params st) = Inr v \<and>
           \<not> should_stop pat (snd (track (best_loss st, no_improvement_count st) v))) \<and>
          train_step X y lr (params st) = Inl e
    | _ \<Rightarrow> train_step X y lr (params st) = Inl e"
proof (cases "forward X (self_weights st) (self_bias st)")
  case (Inl e')
  with assms have "e' = e" unfolding fit_iter_def by simp
  with Inl show ?thesis
    by (cases X_val; cases y_val) (simp_all add: val_loss_of_def train_step_def params_def)
next
  case fw: (Inr y_pred)
  show ?thesis
  proof (cases "mean_log_loss y y_pred")
    case (Inl e')
    with assms fw have "e' = e" unfolding fit_iter_def by simp
    with Inl fw show ?thesis
      by (cases X_val; cases y_val) (simp_all add: val_loss_of_def train_step_def params_def)
  next
    case ls: (Inr loss)
    let ?st1 = "if pl \<and> i mod 100 = 0 then st\<lparr>train_losses := train_losses st @ [loss]\<rparr> else st"
    have st1: "self_weights ?st1 = self_weights st" "self_bias ?st1 = self_bias st" by simp_all
    have ts: "train_step X y lr (params st) = gradient_descend X y lr y_pred (params st)"
      unfolding train_step_def using fw ls by (simp add: params_def)
    show ?thesis
    proof (cases "\<exists>Xv yv. X_val = Some Xv \<and> y_val = Some yv")
      case True
      then obtain Xv yv where xy: "X_val = Some Xv" "y_val = Some yv" by blast
      have vo: "val_loss_of X y Xv yv (params st) =
                  bind (forward Xv (self_weights st) (self_bias st)) (mean_log_loss yv)"
        unfolding val_loss_of_def using fw ls by (simp add: params_def bind_def)
      define st1 where "st1 = ?st1"
      have st1': "self_weights st1 = self_weights st" "self_bias st1 = self_bias st"
        "params st1 = params st" "best_loss st1 = best_loss st"
        "no_improvement_count st1 = no_improvement_count st"
        by (simp_all add: st1_def params_def)
      have it: "fit_iter X y X_val y_val pat pl lr i st =
                  bind (validate Xv yv pat pl i st1) (\<lambda>r. case r of
                      Break st2 \<Rightarrow> Inr (Break st2)
                    | Continue st2 \<Rightarrow>
                        bind (gradient_descend X y lr y_pred (self_weights st2, self_bias st2))
                          (\<lambda>(w', b'). Inr (Continue (st2\<lparr>self_weights := w', self_bias := b'\<rparr>))))"
        unfolding fit_iter_def st1_def using fw ls xy by (simp add: Let_def)
      show ?thesis
      proof (cases "validate Xv yv pat pl i st1")
        case (Inl e')
        with assms it have "e' = e" by simp
        with validate_error[OF Inl] vo xy show ?thesis by (simp add: st1')
      next
        case (Inr r1)
        from validate_cases[OF Inr] obtain v where
          vl: "bind (forward Xv (self_weights st1) (self_bias st1)) (mean_log_loss yv) = Inr v" and
          c: "\<And>st'. r1 = Continue st' \<Longrightarrow> params st' = params st1 \<and>
                \<not> should_stop pat (snd (track (best_loss st1, no_improvement_count st1) v))"
          by (cases r1) auto
        from vl have v: "val_loss_of X y Xv yv (params st) = Inr v"
          unfolding vo st1' .
        show ?thesis
        proof (cases r1)
          case (Break st2)
          with assms it Inr show ?thesis by simp
        next
          case (Continue st2)
          with c have p2: "params st2 = params st"
            and ns: "\<not> should_stop pat (snd (track (best_loss st, no_improvement_count st) v))"
            by (simp_all add: st1')
          have "gradient_descend X y lr y_pred (self_weights st2, self_bias st2) = Inl e"
            using assms it Inr Continue
            by (auto simp: bind_eq_Inl split: prod.splits)
          with p2 ts have "train_step X y lr (params st) = Inl e"
            by (simp add: params_def)
          with v ns xy show ?thesis by auto
        qed
      qed
    next
      case False
      then have "gradient_descend X y lr y_pred (self_weights ?st1, self_bias ?st1) = Inl e"
        using assms fw ls unfolding fit_iter_def
        by (cases X_val; cases y_val) (auto simp: Let_def bind_eq_Inl split: prod.splits)
      with ts have "train_step X y lr (params st) = Inl e" unfolding st1 by (simp add: params_def)
      with False show ?thesis by (cases X_val; cases y_val) auto
    qed
  qed
qed

section \<open>The loop\<close>

lemma fit_loop_result:
  assumes "fit_loop X y X_val y_val pat pl lr idx st = Inr st'" and "stopped_early st = None"
  shows "case stopped_early st' of
      None \<Rightarrow> train_steps X y lr (length idx) (params st) = Inr (params st')
    | Some n \<Rightarrow>
        (\<exists>pre i post. idx = pre @ i # post \<and> n = Suc i \<and>
           train_steps X y lr (length pre) (params st) = Inr (params st')) \<and>
        X_val \<noteq> None \<and> y_val \<noteq> None \<and> should_stop pat (no_improvement_count st')"
  using assms
proof (induction idx arbitrary: st)
  case Nil
  then show ?case by simp
next
  case (Cons i idx)
  from Cons.prems(1) obtain r where r: "fit_iter X y X_val y_val pat pl lr i st = Inr r"
    by (cases "fit_iter X y X_val y_val pat pl lr i st") auto
  note c = fit_iter_cases[OF r]
  show ?case
  proof (cases r)
    case (Break st2)
    with Cons.prems(1) r have eq: "st' = st2" by simp
    from c Break eq have a: "params st' = params st" "stopped_early st' = Some (Suc i)"
      "X_val \<noteq> None" "y_val \<noteq> None" "should_stop pat (no_improvement_count st')"
      by (auto simp: prod_eq_iff)
    have "i # idx = [] @ i # idx \<and> Suc i = Suc i \<and>
          train_steps X y lr (length ([]::nat list)) (params st) = Inr (params st')"
      using a(1) by simp
    then have "\<exists>pre j post. i # idx = pre @ j # post \<and> Suc i = Suc j \<and>
          train_steps X y lr (length pre) (params st) = Inr (params st')"
      by blast
    with a show ?thesis by simp
  next
    case (Continue st2)
    with Cons.prems(1) r have l: "fit_loop X y X_val y_val pat pl lr idx st2 = Inr st'" by simp
    from c Continue have t: "train_step X y lr (params st) = Inr (params st2)"
      and s: "stopped_early st2 = None" using Cons.prems(2) by simp_all
    note ih = Cons.IH[OF l s]
    show ?thesis
    proof (cases "stopped_early st'")
      case None
      with ih t show ?thesis by simp
    next
      case (Some n)
      with ih obtain pre j post where
        p: "idx = pre @ j # post" "n = Suc j"
        "train_steps X y lr (length pre) (params st2) = Inr (params st')"
        and q: "X_val \<noteq> None" "y_val \<noteq> None" "should_stop pat (no_improvement_count st')"
        by auto
      have "i # idx = (i # pre) @ j # post \<and> n = Suc j \<and>
            train_steps X y lr (length (i # pre)) (params st) = Inr (params st')"
        using p t by simp
      then have "\<exists>pre j post. i # idx = pre @ j # post \<and> n = Suc j \<and>
            train_steps X y lr (length pre) (params st) = Inr (params st')"
        by blast
      with q Some show ?thesis by simp
    qed
  qed
qed

lemma fit_loop_noval:
  assumes "X_val = None \<or> y_val = None"
  shows "case fit_loop X y X_val y_val pat pl lr idx st of
      Inl e \<Rightarrow> train_steps X y lr (length idx) (params st) = Inl e
    | Inr st' \<Rightarrow>
        train_steps X y lr (length idx) (params st) = Inr (params st') \<and>
        best_loss st' = best_loss st \<and>
        no_improvement_count st' = no_improvement_count st \<and>
        val_losses st' = val_losses st \<and>
        stopped_early st' = stopped_early st \<and>
        length (train_losses st') =
          length (train_losses st) +
          (if pl then length (filter (\<lambda>i. i mod 100 = 0) idx) else 0)"
proof (induction idx arbitrary: st)
  case Nil
  then show ?case by simp
next
  case (Cons i idx)
  have nv: "(case (X_val, y_val) of (Some Xv, Some yv) \<Rightarrow> P Xv yv | _ \<Rightarrow> Q) = Q" for P Q
    using assms by (cases X_val; cases y_val) auto
  show ?case
  proof (cases "fit_iter X y X_val y_val pat pl lr i st")
    case (Inl e)
    from fit_iter_error[OF Inl] have "train_step X y lr (params st) = Inl e"
      by (simp only: nv)
    with Inl show ?thesis by simp
  next
    case (Inr r)
    note c = fit_iter_cases[OF Inr]
    show ?thesis
    proof (cases r)
      case (Break st2)
      with c assms show ?thesis by auto
    next
      case (Continue st2)
      with c have a: "train_step X y lr (params st) = Inr (params st2)"
        "stopped_early st2 = stopped_early st"
        "length (train_losses st2) =
           length (train_losses st) + (if pl \<and> i mod 100 = 0 then 1 else 0)"
        and b: "(case (X_val, y_val) of
           (Some Xv, Some yv) \<Rightarrow>
             (\<exists>v. val_loss_of X y Xv yv (params st) = Inr v \<and>
                \<not> should_stop pat (snd (track (best_loss st, no_improvement_count st) v)) \<and>
                (best_loss st2, no_improvement_count st2) =
                  track (best_loss st, no_improvement_count st) v)
         | _ \<Rightarrow> best_loss st2 = best_loss st \<and>
                no_improvement_count st2 = no_improvement_count st \<and>
                val_losses st2 = val_losses st)"
        by simp_all
      from b have b': "best_loss st2 = best_loss st"
        "no_improvement_count st2 = no_improvement_count st" "val_losses st2 = val_losses st"
        by (simp_all only: nv)
      from Cons.IH[of st2] Inr Continue a b' show ?thesis
        by (cases "fit_loop X y X_val y_val pat pl lr idx st2") auto
    qed
  qed
qed

lemma fit_loop_stops:
  assumes "n < length idx" and "n < length vs"
    and "\<forall>k\<le>n. bind (train_steps X y lr k (params st)) (val_loss_of X y Xv yv) = Inr (vs ! k)"
    and "\<forall>k<n. \<not> should_stop pat
            (snd (foldl track (best_loss st, no_improvement_count st) (take (Suc k) vs)))"
    and "should_stop pat
            (snd (foldl track (best_loss st, no_improvement_count st) (take (Suc n) vs)))"
  shows "\<exists>st'. fit_loop X y (Some Xv) (Some yv) pat pl lr idx st = Inr st' \<and>
           stopped_early st' = Some (Suc (idx ! n)) \<and>
           train_steps X y lr n (params st) = Inr (params st') \<and>
           (best_loss st', no_improvement_count st') =
             foldl track (best_loss st, no_improvement_count st) (take (Suc n) vs)"
  using assms
proof (induction n arbitrary: idx vs st)
  case 0
  then obtain i idx' v vs' where iseq: "idx = i # idx'" and vs: "vs = v # vs'"
    by (cases idx; cases vs) auto
  from "0.prems"(3) vs have v: "val_loss_of X y Xv yv (params st) = Inr v" by simp
  from "0.prems"(5) vs
  have stop: "should_stop pat (snd (track (best_loss st, no_improvement_count st) v))" by simp
  show ?case
  proof (cases "fit_iter X y (Some Xv) (Some yv) pat pl lr i st")
    case (Inl e)
    from fit_iter_error[OF Inl] v stop have False by auto
    then show ?thesis ..
  next
    case (Inr r)
    note c = fit_iter_cases[OF Inr]
    show ?thesis
    proof (cases r)
      case (Break st2)
      with c v have "params st2 = params st" "stopped_early st2 = Some (Suc i)"
        "(best_loss st2, no_improvement_count st2) =
           track (best_loss st, no_improvement_count st) v"
        by auto
      with Inr Break iseq vs show ?thesis by simp
    next
      case (Continue st2)
      with c v stop have False by auto
      then show ?thesis ..
    qed
  qed
next
  case (Suc n)
  then obtain i idx' v vs' where iseq: "idx = i # idx'" and vs: "vs = v # vs'"
    by (cases idx; cases vs) auto
  from Suc.prems(3) vs have v: "val_loss_of X y Xv yv (params st) = Inr v" by force
  from Suc.prems(4) vs
  have nostop: "\<not> should_stop pat (snd (track (best_loss st, no_improvement_count st) v))"
    by force
  from Suc.prems(3)
  have "bind (train_steps X y lr (Suc 0) (params st)) (val_loss_of X y Xv yv) = Inr (vs ! Suc 0)"
    by (metis Suc_le_mono le0)
  then obtain p1 where p1: "train_step X y lr (params st) = Inr p1"
    by (cases "train_step X y lr (params st)") auto
  show ?case
  proof (cases "fit_iter X y (Some Xv) (Some yv) pat pl lr i st")
    case (Inl e)
    from fit_iter_error[OF Inl] v p1 have False by auto
    then show ?thesis ..
  next
    case (Inr r)
    note c = fit_iter_cases[OF Inr]
    show ?thesis
    proof (cases r)
      case (Break st2)
      with c v nostop have False by auto
      then show ?thesis ..
    next
      case (Continue st2)
      with c v p1 have a: "params st2 = p1"
        and b: "(best_loss st2, no_improvement_count st2) =
                  track (best_loss st, no_improvement_count st) v"
        by auto
      have h1: "n < length idx'" "n < length vs'" using Suc.prems(1,2) iseq vs by simp_all
      have h3: "\<forall>k\<le>n. bind (train_steps X y lr k (params st2)) (val_loss_of X y Xv yv)
                  = Inr (vs' ! k)"
      proof (intro allI impI)
        fix k assume "k \<le> n"
        then have "Suc k \<le> Suc n" by simp
        with Suc.prems(3)
        have "bind (train_steps X y lr (Suc k) (params st)) (val_loss_of X y Xv yv)
                     = Inr (vs ! Suc k)"
          by blast
        then show "bind (train_steps X y lr k (params st2)) (val_loss_of X y Xv yv)
                     = Inr (vs' ! k)"
          using p1 a vs by simp
      qed
      have h4: "\<forall>k<n. \<not> should_stop pat
            (snd (foldl track (best_loss st2, no_improvement_count st2) (take (Suc k) vs')))"
      proof (intro allI impI)
        fix k assume "k < n"
        then have "Suc k < Suc n" by simp
        with Suc.prems(4) have "\<not> should_stop pat
            (snd (foldl track (best_loss st, no_improvement_count st) (take (Suc (Suc k)) vs)))"
          by blast
        then show "\<not> should_stop pat
            (snd (foldl track (best_loss st2, no_improvement_count st2) (take (Suc k) vs')))"
          unfolding b vs by simp
      qed
      have h5: "should_stop pat
            (snd (foldl track (best_loss st2, no_improvement_count st2) (take (Suc n) vs')))"
        using Suc.prems(5) unfolding b vs by simp
      from Suc.IH[OF h1 h3 h4 h5] obtain st' where
        r: "fit_loop X y (Some Xv) (Some yv) pat pl lr idx' st2 = Inr st'"
        "stopped_early st' = Some (Suc (idx' ! n))"
        "train_steps X y lr n (params st2) = Inr (params st')"
        "(best_loss st', no_improvement_count st') =
             foldl track (best_loss st2, no_improvement_count st2) (take (Suc n) vs')"
        by blast
      have "fit_loop X y (Some Xv) (Some yv) pat pl lr idx st = Inr st'"
        using Inr Continue r(1) iseq by simp
      moreover have "stopped_early st' = Some (Suc (idx ! Suc n))" using r(2) iseq by simp
      moreover have "train_steps X y lr (Suc n) (params st) = Inr (params st')"
        using r(3) p1 a by simp
      moreover have "(best_loss st', no_improvement_count st') =
             foldl track (best_loss st, no_improvement_count st) (take (Suc (Suc n)) vs)"
        using r(4) unfolding b vs by simp
      ultimately show ?thesis by blast
    qed
  qed
qed

lemma initial_state_simps:
  "params (initial_state X X_val y_val) = zero_params X"
  "best_loss (initial_state X X_val y_val) = PInf"
  "no_improvement_count (initial_state X X_val y_val) = 0"
  "stopped_early (initial_state X X_val y_val) = None"
  "train_losses (initial_state X X_val y_val) = []"
  by (simp_all add: initial_state_def params_def zero_params_def)

lemma fit_eq_Inr:
  "fit m X y X_val y_val pat pl = Inr (m', st) \<longleftrightarrow>
     fit_loop X y X_val y_val pat pl (learning_rate m) [0..<nat (max_iteration m)]
       (initial_state X X_val y_val) = Inr st \<and>
     m' = m\<lparr>weights := Some (self_weights st), bias := Some (self_bias st)\<rparr>"
  unfolding fit_def by (auto simp: bind_eq_Inr)

lemma fit_eq_Inl:
  "fit m X y X_val y_val pat pl = Inl e \<longleftrightarrow>
     fit_loop X y X_val y_val pat pl (learning_rate m) [0..<nat (max_iteration m)]
       (initial_state X X_val y_val) = Inl e"
  unfolding fit_def by (auto simp: bind_eq_Inl)

lemma upt_split:
  assumes "[0..<n] = pre @ i # post"
  shows "i = length pre \<and> i < n"
proof -
  have l: "length pre < n"
    using arg_cong[OF assms, of length] by simp
  have "[0..<n] ! length pre = i" using assms by simp
  with l show ?thesis by simp
qed

lemma fit_iter_noval_eq:
  assumes "X_val = None \<or> y_val = None"
  shows "fit_iter X y X_val y_val pat pl lr i st = fit_iter X y None None None pl lr i st"
  using assms unfolding fit_iter_def by (cases X_val; cases y_val) auto

lemma fit_loop_noval_eq:
  assumes "X_val = None \<or> y_val = None"
  shows "fit_loop X y X_val y_val pat pl lr idx st = fit_loop X y None None None pl lr idx st"
  by (induction idx arbitrary: st)
     (auto simp: fit_iter_noval_eq[OF assms] split: sum.splits flow.splits)

lemma initial_state_noval:
  assumes "X_val = None \<or> y_val = None"
  shows "initial_state X X_val y_val = initial_state X None None"
  using assms by (auto simp: initial_state_def)

lemma should_stop_Some: "should_stop (Some p) c \<longleftrightarrow> p \<noteq> 0 \<and> p \<le> int c"
  by (simp add: should_stop_def)

lemma bookkeeping_snoc:
  "foldl track (PInf, 0) (xs @ [v]) =
     (if np_less v (best_seen xs) then (v, 0) else (best_seen xs, counter xs + 1))"
  by (cases "foldl track (PInf, 0) xs") (simp add: best_seen_def counter_def)

lemma counter_snoc:
  "counter (xs @ [v]) = (if np_less v (best_seen xs) then 0 else counter xs + 1)"
  unfolding counter_def[of "xs @ [v]"] bookkeeping_snoc by simp

lemma counter_window:
  assumes "s + q \<le> length vs"
    and "\<forall>k. s \<le> k \<and> k < s + q \<longrightarrow> \<not> np_less (vs ! k) (best_seen (take k vs))"
  shows "counter (take (s + q) vs) = counter (take s vs) + q"
  using assms
proof (induction q)
  case 0
  then show ?case by simp
next
  case (Suc q)
  then have ih: "counter (take (s + q) vs) = counter (take s vs) + q" by simp
  have lt: "s + q < length vs" using Suc.prems(1) by simp
  have ni: "\<not> np_less (vs ! (s + q)) (best_seen (take (s + q) vs))"
    using Suc.prems(2) by simp
  have "take (s + Suc q) vs = take (s + q) vs @ [vs ! (s + q)]"
    using lt by (simp add: take_Suc_conv_app_nth)
  then have "counter (take (s + Suc q) vs) = counter (take (s + q) vs) + 1"
    using ni by (simp add: counter_snoc)
  with ih show ?case by simp
qed

section \<open>Evaluation on the worked examples\<close>

lemma fw_flat: "forward X_flat [0] 0 = Inr [1/2, 1/2]"
  by (simp add: forward_def dot_mv_def X_flat_def inner_def sigmoid_def sigmoid1_def)

lemma fwv_flat: "forward Xv_flat [0] 0 = Inr [1/2]"
  by (simp add: forward_def dot_mv_def Xv_flat_def inner_def sigmoid_def sigmoid1_def)

lemma loss_flat: "mean_log_loss y_flat [1/2, 1/2] = Inr (Fin (ln 2))"
  by (simp add: mean_log_loss_def broadcast_def y_flat_def np_mean_def ln_div)

lemma lossv_flat: "mean_log_loss yv_flat [1/2] = Inr (Fin (ln 2))"
  by (simp add: mean_log_loss_def broadcast_def yv_flat_def np_mean_def ln_div)

lemma gd_flat: "gradient_descend X_flat y_flat lr [1/2, 1/2] ([0], 0) = Inr ([0], 0)"
  by (simp add: gradient_descend_def broadcast_def y_flat_def n_rows_def X_flat_def
      dot_tv_def column_def inner_def)

lemma ts_flat: "train_step X_flat y_flat lr ([0], 0) = Inr ([0], 0)"
  by (simp add: train_step_def fw_flat loss_flat gd_flat)

lemma vl_flat: "val_loss_of X_flat y_flat Xv_flat yv_flat ([0], 0) = Inr (Fin (ln 2))"
  by (simp add: val_loss_of_def fw_flat loss_flat fwv_flat lossv_flat)

lemma tss_flat: "train_steps X_flat y_flat lr k ([0], 0) = Inr ([0], 0)"
  by (induction k) (simp_all add: ts_flat)

lemma zp_flat: "zero_params X_flat = ([0], 0)"
  by (simp add: zero_params_def X_flat_def)

lemma vla_flat: "val_loss_at X_flat y_flat Xv_flat yv_flat lr k = Inr (Fin (ln 2))"
  by (simp add: val_loss_at_def zp_flat tss_flat vl_flat)

lemma upt3: "[0..<3] = [0, 1, 2]"
  by (simp add: eval_nat_numeral upt_conv_Cons)

lemma fit_flat_stop:
  "fit (init (1/100) 3 None (1/2)) X_flat y_flat (Some Xv_flat) (Some yv_flat) (Some 1) True =
     Inr (\<lparr>weights = Some [0], bias = Some 0, threshold = 1/2, learning_rate = 1/100,
            max_iteration = 3, patience = None\<rparr>,
          \<lparr>self_weights = [0], self_bias = 0, best_loss = Fin (ln 2), no_improvement_count = 1,
           train_losses = [Fin (ln 2)], val_losses = Some [Fin (ln 2)],
           stopped_early = Some 2\<rparr>)"
  by (simp add: fit_def init_def upt3 initial_state_def X_flat_def[THEN arg_cong[where f=n_cols]]
      fit_iter_def fw_flat loss_flat validate_def fwv_flat lossv_flat gd_flat Let_def should_stop_def)

lemma fit_forgets_parameters:
  "fit (m\<lparr>weights := w0, bias := b0\<rparr>) X y X_val y_val pat pl = fit m X y X_val y_val pat pl"
  by (simp add: fit_def)

lemma forward_eq_Inr:
  "forward X wv bv = Inr yp \<longleftrightarrow>
     n_cols X = length wv \<and> yp = map (\<lambda>r. sigmoid1 (inner r wv + bv)) (rows X)"
  by (auto simp: forward_def dot_mv_def sigmoid_def comp_def)

section \<open>Shapes that do not fit\<close>

lemma broadcast_error: "broadcast f xs ys = Inl e \<Longrightarrow> e = ValueError"
  by (auto simp: broadcast_def split: if_splits)

lemma forward_error: "forward X wv bv = Inl e \<Longrightarrow> e = ValueError"
  by (auto simp: forward_def dot_mv_def split: if_splits)

lemma mean_log_loss_error: "mean_log_loss y yp = Inl e \<Longrightarrow> e = ValueError"
  unfolding mean_log_loss_def by (auto simp: bind_eq_Inl dest: broadcast_error)

lemma val_loss_of_error: "val_loss_of X y Xv yv p = Inl e \<Longrightarrow> e = ValueError"
  unfolding val_loss_of_def
  by (auto simp: bind_eq_Inl dest: forward_error mean_log_loss_error)

lemma forward_zero:
  "forward X (replicate (n_cols X) 0) bv =
     Inr (map (\<lambda>r. sigmoid1 (inner r (replicate (n_cols X) 0) + bv)) (rows X))"
  by (simp add: forward_eq_Inr)

lemma broadcast_stretch_right:
  assumes "length ys = 1"
  shows "\<exists>zs. broadcast f xs ys = Inr zs \<and> length zs = length xs"
  using assms by (auto simp: broadcast_def)

lemma mean_log_loss_single:
  assumes "length yp = 1"
  shows "\<exists>loss. mean_log_loss y yp = Inr loss"
proof -
  from broadcast_stretch_right[of "map ln yp" "(*)" y] assms
  obtain t1 where t1: "broadcast (*) y (map ln yp) = Inr t1" "length t1 = length y"
    by auto
  from broadcast_stretch_right[of "map (\<lambda>p. ln (1 - p)) yp" "(*)" "map (\<lambda>v. 1 - v) y"] assms
  obtain t2 where t2: "broadcast (*) (map (\<lambda>v. 1 - v) y) (map (\<lambda>p. ln (1 - p)) yp) = Inr t2"
    "length t2 = length y"
    by auto
  have "broadcast (+) t1 t2 = Inr (map2 (+) t1 t2)"
    using t1(2) t2(2) by (simp add: broadcast_def)
  then show ?thesis unfolding mean_log_loss_def by (simp add: t1(1) t2(1))
qed

lemma gradient_descend_single:
  assumes "n_rows X = 1" and "length yp = 1" and "length y \<noteq> 1"
  shows "gradient_descend X y lr yp p = Inl ValueError"
proof -
  have "broadcast (-) yp y = Inr (map ((-) (hd yp)) y)"
    using assms by (simp add: broadcast_def)
  then show ?thesis
    unfolding gradient_descend_def using assms by (simp add: dot_tv_def)
qed

lemma train_step_mismatch:
  assumes "length y \<noteq> n_rows X" and "length y \<noteq> 1"
  shows "train_step X y lr (zero_params X) = Inl ValueError"
proof -
  define yp where "yp = map (\<lambda>r. sigmoid1 (inner r (replicate (n_cols X) 0) + 0)) (rows X)"
  have fw: "forward X (fst (zero_params X)) (snd (zero_params X)) = Inr yp"
    unfolding yp_def zero_params_def fst_conv snd_conv by (rule forward_zero)
  have len: "length yp = n_rows X" by (simp add: yp_def n_rows_def)
  show ?thesis
  proof (cases "n_rows X = 1")
    case True
    with len have l1: "length yp = 1" by simp
    from mean_log_loss_single[OF l1] obtain loss where ls: "mean_log_loss y yp = Inr loss"
      by blast
    from gradient_descend_single[OF True l1 assms(2)] show ?thesis
      unfolding train_step_def by (simp add: fw ls)
  next
    case False
    have "broadcast (*) y (map ln yp) = Inl ValueError"
      using assms False len by (simp add: broadcast_def)
    then have "mean_log_loss y yp = Inl ValueError"
      unfolding mean_log_loss_def by simp
    then show ?thesis unfolding train_step_def by (simp add: fw)
  qed
qed

text \<open>The first iteration on labels whose length fits neither the rows nor 1.\<close>

lemma val_loss_of_rows:
  assumes "val_loss_of X y Xv yv (zero_params X) = Inr v"
    and "length y \<noteq> n_rows X" and "length y \<noteq> 1"
  shows "n_rows X = 1"
proof (rule ccontr)
  assume n: "n_rows X \<noteq> 1"
  define yp where "yp = map (\<lambda>r. sigmoid1 (inner r (replicate (n_cols X) 0) + 0)) (rows X)"
  have fw: "forward X (fst (zero_params X)) (snd (zero_params X)) = Inr yp"
    unfolding yp_def zero_params_def fst_conv snd_conv by (rule forward_zero)
  have len: "length yp = n_rows X" by (simp add: yp_def n_rows_def)
  have "broadcast (*) y (map ln yp) = Inl ValueError"
    using assms(2,3) n len by (simp add: broadcast_def)
  then have "mean_log_loss y yp = Inl ValueError"
    unfolding mean_log_loss_def by simp
  then have "val_loss_of X y Xv yv (zero_params X) = Inl ValueError"
    unfolding val_loss_of_def by (simp add: fw)
  with assms(1) show False by simp
qed

lemma first_check_stops_cases:
  "first_check_stops X y X_val y_val pat \<longleftrightarrow>
     (\<exists>Xv yv v. X_val = Some Xv \<and> y_val = Some yv \<and>
        val_loss_of X y Xv yv (zero_params X) = Inr v \<and>
        should_stop pat (snd (track (PInf, 0) v)))"
  unfolding first_check_stops_def
  by (cases X_val; cases y_val) (auto split: sum.splits)

lemma fit_first_Inl:
  assumes "0 < max_iteration m"
    and "fit_iter X y X_val y_val pat pl (learning_rate m) 0 (initial_state X X_val y_val) = Inl e"
  shows "fit m X y X_val y_val pat pl = Inl e"
proof -
  from assms(1) obtain rest where idx: "[0..<nat (max_iteration m)] = 0 # rest"
    by (simp add: upt_conv_Cons)
  with assms(2) show ?thesis by (simp add: fit_eq_Inl)
qed

lemma fit_first_Break:
  assumes "0 < max_iteration m"
    and "fit_iter X y X_val y_val pat pl (learning_rate m) 0 (initial_state X X_val y_val) =
           Inr (Break st)"
  shows "fit m X y X_val y_val pat pl =
           Inr (m\<lparr>weights := Some (self_weights st), bias := Some (self_bias st)\<rparr>, st)"
proof -
  from assms(1) obtain rest where idx: "[0..<nat (max_iteration m)] = 0 # rest"
    by (simp add: upt_conv_Cons)
  with assms(2) show ?thesis by (simp add: fit_eq_Inr)
qed

lemma first_iteration_mismatch:
  assumes "length y \<noteq> n_rows X" and "length y \<noteq> 1"
  shows "if first_check_stops X y X_val y_val pat
         then n_rows X = 1 \<and>
           (\<exists>st. fit_iter X y X_val y_val pat pl lr 0 (initial_state X X_val y_val) =
                    Inr (Break st) \<and>
                 stopped_early st = Some 1 \<and> params st = zero_params X)
         else fit_iter X y X_val y_val pat pl lr 0 (initial_state X X_val y_val) =
                Inl ValueError"
proof -
  let ?st0 = "initial_state X X_val y_val"
  let ?first = "fit_iter X y X_val y_val pat pl lr 0 ?st0"
  have ts: "train_step X y lr (params ?st0) = Inl ValueError"
    using train_step_mismatch[OF assms] by (simp add: initial_state_simps)
  show ?thesis
  proof (cases ?first)
    case (Inl e)
    note er = fit_iter_error[OF Inl, unfolded initial_state_simps]
    have ns: "\<not> first_check_stops X y X_val y_val pat"
      unfolding first_check_stops_cases using er by auto
    have "e = ValueError"
    proof (cases "\<exists>Xv yv. X_val = Some Xv \<and> y_val = Some yv")
      case True
      then obtain Xv yv where "X_val = Some Xv" "y_val = Some yv" by blast
      with fit_iter_error[OF Inl] ts show ?thesis
        by (auto dest: val_loss_of_error)
    next
      case False
      with fit_iter_error[OF Inl] ts show ?thesis
        by (cases X_val; cases y_val) auto
    qed
    with Inl ns show ?thesis by simp
  next
    case (Inr r)
    note c = fit_iter_cases[OF Inr, unfolded initial_state_simps]
    show ?thesis
    proof (cases r)
      case (Continue st')
      with c ts show ?thesis by (simp add: initial_state_simps)
    next
      case (Break st')
      with c obtain Xv yv v where v: "X_val = Some Xv" "y_val = Some yv"
        "val_loss_of X y Xv yv (zero_params X) = Inr v"
        "should_stop pat (snd (track (PInf, 0) v))"
        and st': "params st' = zero_params X" "stopped_early st' = Some 1"
        by auto
      have s: "first_check_stops X y X_val y_val pat"
        unfolding first_check_stops_cases using v by blast
      have "n_rows X = 1" by (rule val_loss_of_rows[OF v(3) assms])
      with s st' Inr Break show ?thesis by simp
    qed
  qed
qed

section \<open>The gradient\<close>

lemma sum_list_map2_nth:
  assumes "length xs = length ys"
  shows "sum_list (map2 f xs ys) = (\<Sum>k<length xs. f (xs ! k) (ys ! k))"
proof -
  have "sum_list (map2 f xs ys) = (\<Sum>k = 0..<length (map2 f xs ys). map2 f xs ys ! k)"
    by (rule sum_list_sum_nth)
  also have "\<dots> = (\<Sum>k = 0..<length xs. f (xs ! k) (ys ! k))"
    using assms by (intro sum.cong) simp_all
  finally show ?thesis by (simp add: atLeast0LessThan)
qed

lemma inner_sum: "length r = length wv \<Longrightarrow> inner r wv = (\<Sum>k<length wv. r ! k * wv ! k)"
  unfolding inner_def by (simp add: sum_list_map2_nth)

lemma sum_list_nth: "sum_list xs = (\<Sum>k<length xs. xs ! k)"
  by (simp add: sum_list_sum_nth atLeast0LessThan)

lemma train_step_formula:
  assumes ts: "train_step X y lr (wv, bv) = Inr (wv', bv')"
    and ws: "well_shaped X" and ly: "length y = n_rows X"
  shows "length wv' = n_cols X \<and>
         (\<forall>j<n_cols X. wv' ! j = wv ! j - lr * grad_w X y wv bv j) \<and>
         bv' = bv - lr * grad_b X y wv bv"
proof -
  from ts obtain yp loss where
    fw: "forward X wv bv = Inr yp" and
    gd: "gradient_descend X y lr yp (wv, bv) = Inr (wv', bv')"
    unfolding train_step_def by (auto simp: bind_eq_Inr)
  from fw have nc: "n_cols X = length wv"
    and yp: "yp = map (\<lambda>r. sigmoid1 (inner r wv + bv)) (rows X)"
    by (simp_all add: forward_eq_Inr)
  have rl: "length (rows X ! i) = length wv" if "i < n_rows X" for i
    using ws that nc by (simp add: well_shaped_def list_all_length n_rows_def)
  have ypi: "yp ! i = sigmoid1 (score X wv bv i)" if "i < n_rows X" for i
    using that rl[OF that] unfolding yp score_def
    by (simp add: n_rows_def inner_sum nc)
  have lyp: "length yp = n_rows X" by (simp add: yp n_rows_def)
  define diff where "diff = map2 (-) yp y"
  have bd: "broadcast (-) yp y = Inr diff"
    using lyp ly by (simp add: broadcast_def diff_def)
  have ld: "length diff = n_rows X" using lyp ly by (simp add: diff_def)
  have di: "diff ! i = sigmoid1 (score X wv bv i) - y ! i" if "i < n_rows X" for i
    using that lyp ly ypi[OF that] by (simp add: diff_def)
  have n0: "n_rows X \<noteq> 0" using gd unfolding gradient_descend_def by (auto split: if_splits)
  define g where "g = map (\<lambda>j. inner (column X j) diff) [0..<n_cols X]"
  have dt: "dot_tv X diff = Inr g" using ld by (simp add: dot_tv_def g_def)
  have "gradient_descend X y lr yp (wv, bv) =
      Inr (map2 (\<lambda>wj dj. wj - lr * dj) wv (map (\<lambda>v. (1 / real (n_rows X)) * v) g),
           bv - lr * ((1 / real (n_rows X)) * sum_list diff))"
    unfolding gradient_descend_def using n0
    by (simp only: bd dt bind_Inr Let_def fst_conv snd_conv if_False)
  with gd have
    w': "wv' = map2 (\<lambda>wj dj. wj - lr * dj) wv (map (\<lambda>v. (1 / real (n_rows X)) * v) g)" and
    b': "bv' = bv - lr * ((1 / real (n_rows X)) * sum_list diff)"
    by (simp_all only: sum.inject prod.inject)
  have lg: "length g = n_cols X" by (simp add: g_def)
  have gj: "g ! j = (\<Sum>i<n_rows X. rows X ! i ! j * (sigmoid1 (score X wv bv i) - y ! i))"
    if "j < n_cols X" for j
  proof -
    have "g ! j = inner (column X j) diff" using that by (simp add: g_def)
    also have "\<dots> = (\<Sum>i<length diff. column X j ! i * diff ! i)"
      by (rule inner_sum) (simp add: column_def ld n_rows_def)
    also have "\<dots> = (\<Sum>i<n_rows X. rows X ! i ! j * (sigmoid1 (score X wv bv i) - y ! i))"
      unfolding ld by (intro sum.cong) (simp_all add: column_def n_rows_def di)
    finally show ?thesis .
  qed
  have 1: "length wv' = n_cols X" unfolding w' using lg nc by simp
  have 2: "\<forall>j<n_cols X. wv' ! j = wv ! j - lr * grad_w X y wv bv j"
    unfolding w' grad_w_def using lg nc by (simp add: gj)
  have "sum_list diff = (\<Sum>i<n_rows X. sigmoid1 (score X wv bv i) - y ! i)"
    unfolding sum_list_nth ld by (intro sum.cong) (simp_all add: di)
  then have 3: "bv' = bv - lr * grad_b X y wv bv" unfolding b' grad_b_def by simp
  from 1 2 3 show ?thesis by blast
qed

lemma sigmoid1_bounds: "0 < sigmoid1 z" "sigmoid1 z < 1"
proof -
  have pos: "0 < exp (- z)" by simp
  show "0 < sigmoid1 z" unfolding sigmoid1_def using pos by (simp add: add_pos_pos)
  show "sigmoid1 z < 1"
    unfolding sigmoid1_def using pos by (simp add: divide_simps add_pos_pos)
qed

lemma sigmoid1_deriv:
  "(sigmoid1 has_real_derivative sigmoid1 z * (1 - sigmoid1 z)) (at z)"
proof -
  have nz: "1 + exp (- z) \<noteq> 0" using exp_gt_zero[of "- z"] by linarith
  have "((\<lambda>t. 1 / (1 + exp (- t))) has_real_derivative
          (exp (- z) / (1 + exp (- z))\<^sup>2)) (at z)"
    using nz by (auto intro!: derivative_eq_intros simp: power2_eq_square)
  moreover have "exp (- z) / (1 + exp (- z))\<^sup>2 =
      (1 / (1 + exp (- z))) * (1 - 1 / (1 + exp (- z)))"
    using nz by (simp add: field_simps power2_eq_square)
  ultimately show ?thesis unfolding sigmoid1_def[abs_def] by simp
qed

lemma log_loss_deriv:
  assumes f: "(f has_real_derivative d) (at t)"
  shows "((\<lambda>t. - (c * ln (sigmoid1 (f t)) + (1 - c) * ln (1 - sigmoid1 (f t))))
           has_real_derivative (sigmoid1 (f t) - c) * d) (at t)"
proof -
  let ?s = "sigmoid1 (f t)"
  have s: "0 < ?s" "?s < 1" by (rule sigmoid1_bounds)+
  have sd: "((\<lambda>t. sigmoid1 (f t)) has_real_derivative (?s * (1 - ?s)) * d) (at t)"
    using DERIV_chain2[OF sigmoid1_deriv f] .
  have "((\<lambda>t. ln (sigmoid1 (f t))) has_real_derivative (1 / ?s) * ((?s * (1 - ?s)) * d)) (at t)"
    by (rule DERIV_chain2[OF DERIV_ln_divide[OF s(1)] sd])
  moreover have "(1 / ?s) * ((?s * (1 - ?s)) * d) = (1 - ?s) * d" using s by simp
  ultimately have d1: "((\<lambda>t. ln (sigmoid1 (f t))) has_real_derivative (1 - ?s) * d) (at t)"
    by simp
  have sd': "((\<lambda>t. 1 - sigmoid1 (f t)) has_real_derivative - ((?s * (1 - ?s)) * d)) (at t)"
    by (auto intro!: derivative_eq_intros sd)
  have p1: "0 < 1 - ?s" using s by simp
  have "((\<lambda>t. ln (1 - sigmoid1 (f t))) has_real_derivative
           (1 / (1 - ?s)) * (- ((?s * (1 - ?s)) * d))) (at t)"
    by (rule DERIV_chain2[OF DERIV_ln_divide[OF p1] sd'])
  moreover have "(1 / (1 - ?s)) * (- ((?s * (1 - ?s)) * d)) = - (?s * d)" using s by simp
  ultimately have d2: "((\<lambda>t. ln (1 - sigmoid1 (f t))) has_real_derivative - (?s * d)) (at t)"
    by simp
  have "((\<lambda>t. - (c * ln (sigmoid1 (f t)) + (1 - c) * ln (1 - sigmoid1 (f t))))
           has_real_derivative - (c * ((1 - ?s) * d) + (1 - c) * (- (?s * d)))) (at t)"
    by (intro DERIV_minus DERIV_add DERIV_cmult d1 d2)
  moreover have "- (c * ((1 - ?s) * d) + (1 - c) * (- (?s * d))) = (?s - c) * d"
    by (simp add: algebra_simps)
  ultimately show ?thesis by simp
qed

lemma score_bias_deriv: "((\<lambda>t. score X wv t i) has_real_derivative 1) (at bv)"
  unfolding score_def by (auto intro!: derivative_eq_intros)

lemma bce_bias_deriv:
  "((\<lambda>t. bce X y wv t) has_real_derivative grad_b X y wv bv) (at bv)"
proof -
  have "((\<lambda>t. \<Sum>i<n_rows X. - (y ! i * ln (sigmoid1 (score X wv t i)) +
                        (1 - y ! i) * ln (1 - sigmoid1 (score X wv t i))))
          has_real_derivative (\<Sum>i<n_rows X. (sigmoid1 (score X wv bv i) - y ! i) * 1)) (at bv)"
    by (intro DERIV_sum log_loss_deriv score_bias_deriv)
  then have "((\<lambda>t. (1 / real (n_rows X)) *
                (\<Sum>i<n_rows X. - (y ! i * ln (sigmoid1 (score X wv t i)) +
                        (1 - y ! i) * ln (1 - sigmoid1 (score X wv t i)))))
          has_real_derivative
            (1 / real (n_rows X)) * (\<Sum>i<n_rows X. (sigmoid1 (score X wv bv i) - y ! i) * 1))
          (at bv)"
    by (rule DERIV_cmult)
  then show ?thesis unfolding bce_def grad_b_def by simp
qed

lemma score_weight_deriv:
  assumes "j < n_cols X" and "j < length wv"
  shows "((\<lambda>t. score X (wv[j := t]) bv i) has_real_derivative rows X ! i ! j) (at (wv ! j))"
proof -
  have eq: "score X (wv[j := t]) bv i =
        (\<Sum>k\<in>{..<n_cols X} - {j}. rows X ! i ! k * wv ! k) + rows X ! i ! j * t + bv" for t
  proof -
    have "(\<Sum>k<n_cols X. rows X ! i ! k * wv[j := t] ! k) =
          rows X ! i ! j * wv[j := t] ! j +
          (\<Sum>k\<in>{..<n_cols X} - {j}. rows X ! i ! k * wv[j := t] ! k)"
      using assms by (intro sum.remove) simp_all
    also have "(\<Sum>k\<in>{..<n_cols X} - {j}. rows X ! i ! k * wv[j := t] ! k) =
               (\<Sum>k\<in>{..<n_cols X} - {j}. rows X ! i ! k * wv ! k)"
      by (intro sum.cong) simp_all
    finally show ?thesis using assms by (simp add: score_def)
  qed
  show ?thesis unfolding eq by (auto intro!: derivative_eq_intros)
qed

lemma bce_weight_deriv:
  assumes "j < n_cols X" and "j < length wv"
  shows "((\<lambda>t. bce X y (wv[j := t]) bv) has_real_derivative grad_w X y wv bv j) (at (wv ! j))"
proof -
  have s: "score X (wv[j := wv ! j]) bv i = score X wv bv i" for i by simp
  have "((\<lambda>t. \<Sum>i<n_rows X. - (y ! i * ln (sigmoid1 (score X (wv[j := t]) bv i)) +
                        (1 - y ! i) * ln (1 - sigmoid1 (score X (wv[j := t]) bv i))))
          has_real_derivative
            (\<Sum>i<n_rows X. (sigmoid1 (score X (wv[j := wv ! j]) bv i) - y ! i) * (rows X ! i ! j)))
          (at (wv ! j))"
    by (intro DERIV_sum log_loss_deriv score_weight_deriv assms)
  then have "((\<lambda>t. (1 / real (n_rows X)) *
                (\<Sum>i<n_rows X. - (y ! i * ln (sigmoid1 (score X (wv[j := t]) bv i)) +
                        (1 - y ! i) * ln (1 - sigmoid1 (score X (wv[j := t]) bv i)))))
          has_real_derivative
            (1 / real (n_rows X)) *
            (\<Sum>i<n_rows X. (sigmoid1 (score X (wv[j := wv ! j]) bv i) - y ! i) * (rows X ! i ! j)))
          (at (wv ! j))"
    by (rule DERIV_cmult)
  then show ?thesis unfolding bce_def grad_w_def s by (simp add: mult.commute)
qed

lemma mean_log_loss_bce:
  assumes fw: "forward X wv bv = Inr yp" and ws: "well_shaped X"
    and ly: "length y = n_rows X" and n0: "n_rows X \<noteq> 0"
  shows "mean_log_loss y yp = Inr (Fin (bce X y wv bv))"
proof -
  from fw have nc: "n_cols X = length wv"
    and yp: "yp = map (\<lambda>r. sigmoid1 (inner r wv + bv)) (rows X)"
    by (simp_all add: forward_eq_Inr)
  have lyp: "length yp = n_rows X" by (simp add: yp n_rows_def)
  have ypi: "yp ! i = sigmoid1 (score X wv bv i)" if "i < n_rows X" for i
  proof -
    have "length (rows X ! i) = length wv"
      using ws that nc by (simp add: well_shaped_def list_all_length n_rows_def)
    then show ?thesis using that unfolding yp score_def
      by (simp add: n_rows_def inner_sum nc)
  qed
  define t1 where "t1 = map2 (*) y (map ln yp)"
  define t2 where "t2 = map2 (*) (map (\<lambda>v. 1 - v) y) (map (\<lambda>p. ln (1 - p)) yp)"
  define s where "s = map2 (+) t1 t2"
  have b1: "broadcast (*) y (map ln yp) = Inr t1"
    using ly lyp by (simp add: broadcast_def t1_def)
  have b2: "broadcast (*) (map (\<lambda>v. 1 - v) y) (map (\<lambda>p. ln (1 - p)) yp) = Inr t2"
    using ly lyp by (simp add: broadcast_def t2_def)
  have l12: "length t1 = n_rows X" "length t2 = n_rows X"
    using ly lyp by (simp_all add: t1_def t2_def)
  have b3: "broadcast (+) t1 t2 = Inr s" using l12 by (simp add: broadcast_def s_def)
  have ls: "length s = n_rows X" using l12 by (simp add: s_def)
  have si: "map uminus s ! i =
      - (y ! i * ln (sigmoid1 (score X wv bv i)) +
         (1 - y ! i) * ln (1 - sigmoid1 (score X wv bv i)))"
    if "i < n_rows X" for i
    using that ly lyp l12 ls ypi[OF that] by (simp add: s_def t1_def t2_def)
  have "sum_list (map uminus s) = (\<Sum>i<length (map uminus s). map uminus s ! i)"
    by (rule sum_list_nth)
  also have "\<dots> = (\<Sum>i<n_rows X. - (y ! i * ln (sigmoid1 (score X wv bv i)) +
         (1 - y ! i) * ln (1 - sigmoid1 (score X wv bv i))))"
    using ls by (intro sum.cong) (simp_all only: length_map lessThan_iff si)
  finally have sm: "sum_list (map uminus s) / real (n_rows X) = bce X y wv bv"
    unfolding bce_def by simp
  have ne: "s \<noteq> []" using ls n0 by auto
  have "np_mean (map uminus s) = Fin (bce X y wv bv)"
    unfolding np_mean_def using ne ls sm by simp
  then show ?thesis unfolding mean_log_loss_def by (simp add: b1 b2 b3)
qed

lemma fit_iter_one:
  "fit_iter X_one y_one None None None True (1/100) 0 (initial_state X_one None None) =
     Inr (Continue st_one)"
proof -
  have fw: "forward X_one [0] 0 = Inr [1/2, 1/2]"
    by (simp add: forward_def dot_mv_def X_one_def inner_def sigmoid_def sigmoid1_def)
  have l: "mean_log_loss y_one [1/2, 1/2] = Inr (Fin (ln 2))"
    by (simp add: mean_log_loss_def broadcast_def y_one_def np_mean_def ln_div)
  have g: "gradient_descend X_one y_one (1/100) [1/2, 1/2] ([0], 0) = Inr ([1/400], 0)"
    by (simp add: gradient_descend_def broadcast_def y_one_def n_rows_def X_one_def
        dot_tv_def column_def inner_def)
  show ?thesis
    by (simp add: fit_iter_def initial_state_def X_one_def[THEN arg_cong[where f=n_cols]]
        fw l g st_one_def)
qed

section \<open>Rounding\<close>

lemma round_even_bounds:
  "real_of_int (round_even x) \<le> x + 1 / 2" "x - 1 / 2 \<le> real_of_int (round_even x)"
  unfolding round_even_def by (auto split: if_splits) linarith+

lemma round_even_ge:
  assumes "real_of_int n \<le> x"
  shows "n \<le> round_even x"
proof -
  have "n \<le> \<lfloor>x\<rfloor>" using assms by (simp add: le_floor_iff)
  then show ?thesis unfolding round_even_def by (auto split: if_splits)
qed

lemma round_even_le:
  assumes "x \<le> real_of_int n"
  shows "round_even x \<le> n"
proof (cases "x = real_of_int n")
  case True
  then show ?thesis by (simp add: round_even_def)
next
  case False
  with assms have "x < real_of_int n" by simp
  then have "\<lfloor>x\<rfloor> < n" by (simp add: floor_less_iff)
  then show ?thesis unfolding round_even_def by (auto split: if_splits)
qed

lemma round_even_of_int: "round_even (real_of_int n) = n"
  by (simp add: round_even_def)

lemma round_even_zero [simp]: "round_even 0 = 0"
  by (simp add: round_even_def)

lemma overflow_threshold_gt: "2 ^ 1023 < overflow_threshold"
  unfolding overflow_threshold_def by (rule power_strict_increasing) simp_all

lemma overflow_threshold_gt_one: "1 < overflow_threshold"
proof -
  have "(1::real) \<le> 2 ^ 1023" by (rule one_le_power) simp
  with overflow_threshold_gt show ?thesis by linarith
qed

lemma quantum_pos: "0 < quantum x"
  by (simp add: quantum_def)

lemma floor_log2:
  assumes "0 < x"
  shows "2 powr real_of_int \<lfloor>log 2 x\<rfloor> \<le> x" "x < 2 powr (real_of_int \<lfloor>log 2 x\<rfloor> + 1)"
proof -
  have "real_of_int \<lfloor>log 2 x\<rfloor> \<le> log 2 x" by simp
  then show "2 powr real_of_int \<lfloor>log 2 x\<rfloor> \<le> x"
    using assms le_log_iff[of 2 x "real_of_int \<lfloor>log 2 x\<rfloor>"] by simp
  have "log 2 x < real_of_int \<lfloor>log 2 x\<rfloor> + 1" by linarith
  then show "x < 2 powr (real_of_int \<lfloor>log 2 x\<rfloor> + 1)"
    using assms log_less_iff[of 2 x "real_of_int \<lfloor>log 2 x\<rfloor> + 1"] by simp
qed

lemma floor_log2_eq:
  assumes "2 powr real_of_int k \<le> x" and "x < 2 powr (real_of_int k + 1)"
  shows "\<lfloor>log 2 x\<rfloor> = k"
proof -
  have "0 < (2::real) powr real_of_int k" by simp
  with assms(1) have x: "0 < x" by linarith
  have "real_of_int k \<le> log 2 x"
    using assms(1) x le_log_iff[of 2 x "real_of_int k"] by simp
  moreover have "log 2 x < real_of_int k + 1"
    using assms(2) x log_less_iff[of 2 x "real_of_int k + 1"] by simp
  ultimately show ?thesis by (simp add: floor_eq_iff)
qed

lemma fl64_Fin:
  assumes "x \<noteq> 0" and "real_of_int (round_even (x / quantum x)) * quantum x = r"
    and "r < overflow_threshold"
  shows "fl64 x = Fin r"
  using assms by (simp add: fl64_def)

lemma fl64_cases:
  "fl64 x = PInf \<or> fl64 x = Fin (real_of_int (round_even (x / quantum x)) * quantum x)"
  by (simp add: fl64_def)

lemma fl64_pow2:
  assumes "- 1022 \<le> k" and "k \<le> 1023"
  shows "fl64 (2 powr real_of_int k) = Fin (2 powr real_of_int k)"
proof -
  let ?x = "2 powr real_of_int k :: real"
  have fl: "\<lfloor>log 2 \<bar>?x\<bar>\<rfloor> = k" by simp
  have q: "quantum ?x = 2 powr (real_of_int k - 52)"
    unfolding quantum_def fl using assms(1) by (simp add: max_def)
  have "?x / quantum ?x = 2 powr 52"
    unfolding q by (simp add: powr_diff)
  also have "\<dots> = real_of_int (2 ^ 52)"
    by (simp add: powr_numeral)
  finally have d: "?x / quantum ?x = real_of_int (2 ^ 52)" .
  have r: "real_of_int (round_even (?x / quantum ?x)) * quantum ?x = ?x"
    unfolding d round_even_of_int unfolding q by (simp add: powr_diff powr_numeral)
  have "?x \<le> 2 powr real_of_int 1023"
    using assms(2) by (intro powr_mono) simp_all
  also have "\<dots> = 2 ^ 1023"
    using powr_realpow[of "2::real" 1023] by simp
  finally have lt: "?x < overflow_threshold" using overflow_threshold_gt by linarith
  show ?thesis by (rule fl64_Fin[OF _ r lt]) simp
qed

lemma fl64_one: "fl64 1 = Fin 1"
  using fl64_pow2[of 0] by simp

lemma fl64_two: "fl64 2 = Fin 2"
  using fl64_pow2[of 1] by simp

lemma fl64_half: "fl64 (1 / 2) = Fin (1 / 2)"
  using fl64_pow2[of "- 1"] by (simp add: powr_minus_divide)

lemma fl64_nonneg:
  assumes "0 \<le> x"
  shows "fl64 x = PInf \<or> (\<exists>r. fl64 x = Fin r \<and> 0 \<le> r)"
proof -
  have "0 \<le> x / quantum x" using assms quantum_pos[of x] by simp
  then have "0 \<le> round_even (x / quantum x)"
    using round_even_ge[of 0 "x / quantum x"] by simp
  then have "0 \<le> real_of_int (round_even (x / quantum x)) * quantum x"
    using quantum_pos[of x] by simp
  then show ?thesis using fl64_cases[of x] by auto
qed

lemma fl64_ge_one:
  assumes "1 \<le> x"
  shows "fl64 x = PInf \<or> (\<exists>r. fl64 x = Fin r \<and> 1 \<le> r)"
proof -
  define e where "e = \<lfloor>log 2 x\<rfloor>"
  have x: "0 < x" "\<bar>x\<bar> = x" using assms by simp_all
  have "0 \<le> log 2 x" using assms by simp
  then have e0: "0 \<le> e" unfolding e_def by simp
  have q: "quantum x = 2 powr (real_of_int e - 52)"
    unfolding quantum_def x(2) e_def[symmetric] using e0 by (simp add: max_def)
  have lo: "2 powr real_of_int e \<le> x" unfolding e_def by (rule floor_log2(1)[OF x(1)])
  have "real_of_int (2 ^ 52) = 2 powr real_of_int e / quantum x"
    unfolding q by (simp add: powr_diff powr_numeral)
  also have "\<dots> \<le> x / quantum x"
    using lo quantum_pos[of x] by (simp add: divide_right_mono)
  finally have "2 ^ 52 \<le> round_even (x / quantum x)" by (rule round_even_ge)
  then have "real_of_int (2 ^ 52) \<le> real_of_int (round_even (x / quantum x))"
    by (simp only: of_int_le_iff)
  then have "real_of_int (2 ^ 52) * quantum x \<le>
      real_of_int (round_even (x / quantum x)) * quantum x"
    using quantum_pos[of x] by (simp only: mult_le_cancel_right_pos)
  moreover have "real_of_int (2 ^ 52) * quantum x = 2 powr real_of_int e"
    unfolding q by (simp add: powr_diff powr_numeral)
  moreover have "(1::real) \<le> 2 powr real_of_int e"
    using e0 by (simp add: ge_one_powr_ge_zero)
  ultimately have "1 \<le> real_of_int (round_even (x / quantum x)) * quantum x" by linarith
  then show ?thesis using fl64_cases[of x] by auto
qed

lemma fl64_le_one:
  assumes "0 \<le> x" and "x \<le> 1"
  shows "\<exists>r. fl64 x = Fin r \<and> 0 \<le> r \<and> r \<le> 1"
proof (cases "x = 0 \<or> x = 1")
  case True
  then show ?thesis using fl64_one by (auto simp: fl64_def)
next
  case False
  then have x: "0 < x" "x < 1" "\<bar>x\<bar> = x" using assms by simp_all
  define e where "e = max \<lfloor>log 2 x\<rfloor> (- 1022)"
  have "log 2 x < 0" using x by simp
  then have "\<lfloor>log 2 x\<rfloor> < 0" by (rule iffD2[OF floor_less_zero])
  then have e0: "e \<le> - 1" unfolding e_def by linarith
  have q: "quantum x = 2 powr (real_of_int e - 52)"
    unfolding quantum_def x(3) e_def ..
  have "x < 2 powr (real_of_int \<lfloor>log 2 x\<rfloor> + 1)" by (rule floor_log2(2)[OF x(1)])
  also have "\<dots> \<le> 2 powr (real_of_int e + 1)"
    unfolding e_def by (intro powr_mono) simp_all
  finally have hi: "x < 2 powr (real_of_int e + 1)" .
  have "x / quantum x \<le> 2 powr (real_of_int e + 1) / quantum x"
    using hi quantum_pos[of x] by (simp add: divide_right_mono)
  also have "\<dots> = real_of_int (2 ^ 53)"
    unfolding q by (simp add: powr_diff powr_add powr_numeral)
  finally have "round_even (x / quantum x) \<le> 2 ^ 53" by (rule round_even_le)
  then have "real_of_int (round_even (x / quantum x)) \<le> real_of_int (2 ^ 53)"
    by (simp only: of_int_le_iff)
  then have "real_of_int (round_even (x / quantum x)) * quantum x \<le>
      real_of_int (2 ^ 53) * quantum x"
    using quantum_pos[of x] by (simp only: mult_le_cancel_right_pos)
  moreover have "real_of_int (2 ^ 53) * quantum x = 2 powr (real_of_int e + 1)"
    unfolding q by (simp add: powr_diff powr_add powr_numeral)
  moreover have "2 powr (real_of_int e + 1) \<le> (2::real) powr 0"
    using e0 by (intro powr_mono) simp_all
  ultimately have le1: "real_of_int (round_even (x / quantum x)) * quantum x \<le> 1" by simp
  have "0 \<le> x / quantum x" using x quantum_pos[of x] by simp
  then have "0 \<le> round_even (x / quantum x)"
    using round_even_ge[of 0 "x / quantum x"] by simp
  then have ge0: "0 \<le> real_of_int (round_even (x / quantum x)) * quantum x"
    using quantum_pos[of x] by simp
  have "fl64 x = Fin (real_of_int (round_even (x / quantum x)) * quantum x)"
    using x le1 overflow_threshold_gt_one by (intro fl64_Fin) simp_all
  with le1 ge0 show ?thesis by blast
qed

lemma fl64_one_plus:
  assumes "0 \<le> t" and "t < 1 / 2 ^ 53"
  shows "fl64 (1 + t) = Fin 1"
proof -
  let ?x = "1 + t"
  have x: "0 < ?x" "\<bar>?x\<bar> = ?x" using assms by simp_all
  have t2: "t < 1" using assms(2) by (rule less_le_trans) simp
  have "\<lfloor>log 2 ?x\<rfloor> = 0"
    using assms(1) t2 by (intro floor_log2_eq) simp_all
  then have q: "quantum ?x = 1 / 2 ^ 52"
    unfolding quantum_def x(2) by (simp add: powr_minus_divide)
  have d: "?x / quantum ?x = real_of_int (2 ^ 52) + t * 2 ^ 52"
    unfolding q by (simp add: algebra_simps)
  have s0: "0 \<le> t * 2 ^ 52" using assms(1) by simp
  have "t * 2 ^ 52 < 1 / 2 ^ 53 * 2 ^ 52"
    using assms(2) by (simp only: mult_less_cancel_right_pos zero_less_power zero_less_numeral)
  then have s1: "t * 2 ^ 52 < 1 / 2" by simp
  have f: "\<lfloor>?x / quantum ?x\<rfloor> = 2 ^ 52"
    unfolding d using s0 s1 by (simp add: floor_eq_iff)
  have "round_even (?x / quantum ?x) = 2 ^ 52"
    unfolding round_even_def f unfolding d using s1 by simp
  then have "real_of_int (round_even (?x / quantum ?x)) * quantum ?x = 1"
    unfolding q by simp
  then show ?thesis using x overflow_threshold_gt_one by (intro fl64_Fin) simp_all
qed

subsection \<open>The sigmoid on floats\<close>

lemma exp_one_lower: "27 / 10 \<le> exp (1 :: real)"
proof -
  have "(145 / 128 :: real) \<le> 1 + 1 / 8 + (1 / 8)\<^sup>2 / 2" by (simp add: power2_eq_square)
  also have "\<dots> \<le> exp (1 / 8)" by (rule exp_lower_Taylor_quadratic) simp
  finally have "(145 / 128 :: real) ^ 8 \<le> exp (1 / 8) ^ 8"
    by (intro power_mono) simp_all
  also have "\<dots> = exp (of_nat 8 * (1 / 8))" by (simp only: exp_of_nat_mult)
  also have "\<dots> = exp 1" by simp
  finally have "(145 / 128 :: real) ^ 8 \<le> exp 1" .
  moreover have "(27 / 10 :: real) \<le> (145 / 128) ^ 8" by (simp add: power_divide)
  ultimately show ?thesis by linarith
qed

lemma exp_37_lower: "(27 / 10) ^ 37 \<le> exp (37 :: real)"
proof -
  have "(27 / 10 :: real) ^ 37 \<le> exp 1 ^ 37"
    using exp_one_lower by (intro power_mono) simp_all
  also have "\<dots> = exp (of_nat 37 * 1)" by (simp only: exp_of_nat_mult)
  also have "\<dots> = exp 37" by simp
  finally show ?thesis .
qed

lemma exp_minus_37_upper: "exp (- 37 :: real) + 1 / 2 ^ 107 < 1 / 2 ^ 53"
proof -
  have p: "(0::real) < (27 / 10) ^ 37" by simp
  have "exp (- 37 :: real) = 1 / exp 37" by (simp add: exp_minus divide_inverse)
  also have "\<dots> \<le> 1 / (27 / 10) ^ 37"
    using exp_37_lower p by (intro divide_left_mono) simp_all
  finally have "exp (- 37 :: real) \<le> 1 / (27 / 10) ^ 37" .
  moreover have "1 / (27 / 10 :: real) ^ 37 + 1 / 2 ^ 107 < 1 / 2 ^ 53"
    by (simp add: power_divide)
  ultimately show ?thesis by linarith
qed

lemma np_exp_minus_37: "\<exists>t. np_exp (- 37) = Fin t \<and> 0 \<le> t \<and> t < 1 / 2 ^ 53"
proof -
  define x :: real where "x = exp (- 37)"
  have x: "0 < x" "\<bar>x\<bar> = x" by (simp_all add: x_def)
  have xu: "x + 1 / 2 ^ 107 < 1 / 2 ^ 53" unfolding x_def by (rule exp_minus_37_upper)
  define e where "e = max \<lfloor>log 2 x\<rfloor> (- 1022)"
  have q: "quantum x = 2 powr (real_of_int e - 52)" unfolding quantum_def x(2) e_def ..
  have "(0::real) < 1 / 2 ^ 107" by simp
  with xu have "x < 1 / 2 ^ 53" by linarith
  also have "\<dots> = 2 powr (- 53)" by (simp add: powr_minus_divide)
  finally have "x < 2 powr (- 53)" .
  then have "log 2 x < - 53" by (rule iffD2[OF log_less_iff[of 2 x "- 53"], rotated 2]) (simp_all add: x)
  then have "\<lfloor>log 2 x\<rfloor> < - 53" using floor_less_iff[of "log 2 x" "- 53"] by simp
  then have e: "e \<le> - 54" unfolding e_def by linarith
  have "quantum x \<le> 2 powr (- 106)" unfolding q using e by (intro powr_mono) simp_all
  also have "\<dots> = 1 / 2 ^ 106" by (simp add: powr_minus_divide)
  finally have qu: "quantum x \<le> 1 / 2 ^ 106" .
  define t where "t = real_of_int (round_even (x / quantum x)) * quantum x"
  have "0 \<le> x / quantum x" using x quantum_pos[of x] by simp
  then have "0 \<le> round_even (x / quantum x)"
    using round_even_ge[of 0 "x / quantum x"] by simp
  then have t0: "0 \<le> t" unfolding t_def using quantum_pos[of x] by simp
  have "t \<le> (x / quantum x + 1 / 2) * quantum x"
    unfolding t_def using round_even_bounds(1)[of "x / quantum x"] quantum_pos[of x]
    by (simp only: mult_le_cancel_right_pos)
  also have "\<dots> = x + quantum x / 2"
    using quantum_pos[of x] by (simp add: field_simps)
  also have "\<dots> \<le> x + 1 / 2 ^ 107" using qu by simp
  finally have t1: "t < 1 / 2 ^ 53" using xu by linarith
  have "(1::real) / 2 ^ 53 \<le> 1" by simp
  with t1 overflow_threshold_gt_one have "t < overflow_threshold" by linarith
  then have "fl64 x = Fin t" using x(1) unfolding t_def by (intro fl64_Fin) simp_all
  with t0 t1 show ?thesis unfolding np_exp_def x_def by blast
qed

lemma fl64_div_one: "fl64 (1 / 1) = Fin 1"
  using fl64_one by simp

lemma sigmoid64_saturates: "sigmoid64 37 = Fin 1"
proof -
  obtain t where t: "np_exp (- 37) = Fin t" "0 \<le> t" "t < 1 / 2 ^ 53"
    using np_exp_minus_37 by blast
  have d: "fl64 (1 + t) = Fin 1" by (rule fl64_one_plus[OF t(2,3)])
  show ?thesis unfolding sigmoid64_def t(1) by (simp add: d fl64_one)
qed

lemma sigmoid64_zero: "sigmoid64 0 = Fin (1 / 2)"
proof -
  have "np_exp (- 0) = Fin 1" unfolding np_exp_def using fl64_one by simp
  moreover have "fl64 (1 + 1) = Fin 2" using fl64_two by simp
  ultimately show ?thesis unfolding sigmoid64_def by (simp add: fl64_half)
qed

lemma sigmoid64_range: "\<exists>v. sigmoid64 z = Fin v \<and> 0 \<le> v \<and> v \<le> 1"
proof -
  have "0 \<le> exp (- z)" by simp
  from fl64_nonneg[OF this] show ?thesis
  proof
    assume "fl64 (exp (- z)) = PInf"
    then show ?thesis unfolding sigmoid64_def np_exp_def by simp
  next
    assume "\<exists>r. fl64 (exp (- z)) = Fin r \<and> 0 \<le> r"
    then obtain t where t: "fl64 (exp (- z)) = Fin t" "0 \<le> t" by blast
    then have "1 \<le> 1 + t" by simp
    from fl64_ge_one[OF this] show ?thesis
    proof
      assume "fl64 (1 + t) = PInf"
      then show ?thesis unfolding sigmoid64_def np_exp_def t(1) by simp
    next
      assume "\<exists>r. fl64 (1 + t) = Fin r \<and> 1 \<le> r"
      then obtain d where d: "fl64 (1 + t) = Fin d" "1 \<le> d" by blast
      then have "0 \<le> 1 / d" "1 / d \<le> 1" by simp_all
      from fl64_le_one[OF this] obtain v where "fl64 (1 / d) = Fin v" "0 \<le> v" "v \<le> 1"
        by blast
      then show ?thesis unfolding sigmoid64_def np_exp_def t(1) using d by simp
    qed
  qed
qed

lemma round_even_abs: "\<bar>real_of_int (round_even y) - y\<bar> \<le> 1 / 2"
  using round_even_bounds[of y] by linarith

lemma quantum_le:
  assumes "0 < x"
  shows "quantum x \<le> x / 2 ^ 52 + 1 / 2 ^ 59"
proof (cases "- 1022 \<le> \<lfloor>log 2 x\<rfloor>")
  case True
  have ax: "\<bar>x\<bar> = x" using assms by simp
  have "max \<lfloor>log 2 x\<rfloor> (- 1022) = \<lfloor>log 2 x\<rfloor>" using True by (rule max_absorb1)
  then have "quantum x = 2 powr (real_of_int \<lfloor>log 2 x\<rfloor> - 52)"
    unfolding quantum_def ax by (simp only:)
  also have "\<dots> = 2 powr real_of_int \<lfloor>log 2 x\<rfloor> / 2 ^ 52"
    by (simp add: powr_diff)
  also have "\<dots> \<le> x / 2 ^ 52"
    using floor_log2(1)[OF assms] by (intro divide_right_mono) simp_all
  finally show ?thesis by simp
next
  case False
  have ax: "\<bar>x\<bar> = x" using assms by simp
  have "\<lfloor>log 2 x\<rfloor> \<le> - 1022" using False by linarith
  then have "max \<lfloor>log 2 x\<rfloor> (- 1022) = - 1022" by (rule max_absorb2)
  then have "quantum x = 2 powr (real_of_int (- 1022) - 52)"
    unfolding quantum_def ax by (simp only:)
  also have "\<dots> = 2 powr (- 1074)" by simp
  finally have "quantum x = 2 powr (- 1074)" .
  also have "\<dots> \<le> 2 powr (- 59)" by (intro powr_mono) simp_all
  also have "\<dots> = 1 / 2 ^ 59" by (simp add: powr_minus_divide)
  finally show ?thesis using assms by simp
qed

lemma fl64_round_error:
  assumes "0 < x"
  shows "\<bar>real_of_int (round_even (x / quantum x)) * quantum x - x\<bar> \<le> x / 2 ^ 53 + 1 / 2 ^ 60"
proof -
  have q: "0 < quantum x" by (rule quantum_pos)
  have "real_of_int (round_even (x / quantum x)) * quantum x - x =
      (real_of_int (round_even (x / quantum x)) - x / quantum x) * quantum x"
    using q by (simp add: field_simps)
  then have "\<bar>real_of_int (round_even (x / quantum x)) * quantum x - x\<bar> =
      \<bar>real_of_int (round_even (x / quantum x)) - x / quantum x\<bar> * quantum x"
    using q by (simp add: abs_mult)
  also have "\<dots> \<le> 1 / 2 * quantum x"
    using round_even_abs[of "x / quantum x"] q by (intro mult_right_mono) simp_all
  also have "\<dots> \<le> 1 / 2 * (x / 2 ^ 52 + 1 / 2 ^ 59)"
    using quantum_le[OF assms] by (intro mult_left_mono) simp_all
  also have "\<dots> = x / 2 ^ 53 + 1 / 2 ^ 60" by simp
  finally show ?thesis .
qed

lemma fl64_error:
  assumes "0 < x"
  shows "fl64 x = PInf \<or> (\<exists>r. fl64 x = Fin r \<and> \<bar>r - x\<bar> \<le> x / 2 ^ 53 + 1 / 2 ^ 60)"
  using fl64_cases[of x] fl64_round_error[OF assms] by auto

lemma overflow_threshold_ge: "2 ^ 62 \<le> overflow_threshold"
  unfolding overflow_threshold_def by (rule power_increasing) simp_all

lemma fl64_PInf:
  assumes "0 < x" and "fl64 x = PInf"
  shows "2 ^ 60 \<le> x"
proof -
  let ?r = "real_of_int (round_even (x / quantum x)) * quantum x"
  from assms have "overflow_threshold \<le> ?r"
    by (simp add: fl64_def split: if_splits)
  with overflow_threshold_ge have r: "2 ^ 62 \<le> ?r" by linarith
  have "x / 2 ^ 53 \<le> x" using assms(1) by (simp add: field_simps)
  with fl64_round_error[OF assms(1)] have "?r \<le> x + x + 1" by (simp add: abs_le_iff)
  with r show ?thesis by simp
qed

lemma recip_diff:
  fixes a b c k :: real
  assumes "1 \<le> a" and "1 \<le> b" and "\<bar>a - b\<bar> \<le> c * b + k" and "0 \<le> c" and "0 \<le> k"
  shows "\<bar>1 / a - 1 / b\<bar> \<le> c + k"
proof -
  have "1 * 1 \<le> a * b" using assms(1,2) by (intro mult_mono) simp_all
  then have ab: "0 < a" "0 < b" "0 < a * b" "1 \<le> a * b"
    using assms(1,2) by simp_all
  have "1 / a - 1 / b = (b - a) / (a * b)"
    using ab by (simp add: field_simps)
  then have "\<bar>1 / a - 1 / b\<bar> = \<bar>a - b\<bar> / (a * b)"
    using ab by (simp add: abs_minus_commute)
  also have "\<dots> \<le> (c * b + k) / (a * b)"
    using assms(3) ab by (intro divide_right_mono) simp_all
  also have "\<dots> = c / a + k / (a * b)"
    using ab by (simp add: field_simps)
  also have "\<dots> \<le> c + k"
  proof (rule add_mono)
    show "c / a \<le> c" using divide_left_mono[of 1 a c] assms(1,4) ab by simp
    show "k / (a * b) \<le> k" using divide_left_mono[of 1 "a * b" k] assms(5) ab by simp
  qed
  finally show ?thesis .
qed

lemma sigmoid1_le_recip: "sigmoid1 z \<le> 1 / exp (- z)"
  unfolding sigmoid1_def by (intro divide_left_mono) (simp_all add: add_pos_pos)

lemma sigmoid64_error: "\<exists>v. sigmoid64 z = Fin v \<and> \<bar>v - sigmoid1 z\<bar> \<le> 1 / 2 ^ 51"
proof -
  define e0 where "e0 = exp (- z)"
  have e0: "0 < e0" by (simp add: e0_def)
  have s: "sigmoid1 z = 1 / (1 + e0)" by (simp add: sigmoid1_def e0_def)
  have s0: "0 < sigmoid1 z" by (rule sigmoid1_bounds)
  have small: "\<bar>0 - sigmoid1 z\<bar> \<le> 1 / 2 ^ 51" if "2 ^ 57 \<le> e0"
  proof -
    have "sigmoid1 z \<le> 1 / e0" unfolding e0_def by (rule sigmoid1_le_recip)
    also have "\<dots> \<le> 1 / 2 ^ 57" using that by (intro divide_left_mono) simp_all
    also have "\<dots> \<le> (1::real) / 2 ^ 51" by simp
    finally show ?thesis using s0 by simp
  qed
  from fl64_error[OF e0] show ?thesis
  proof
    assume inf: "fl64 e0 = PInf"
    from fl64_PInf[OF e0 inf] have "(2::real) ^ 57 \<le> e0" by simp
    from small[OF this] inf show ?thesis
      unfolding sigmoid64_def np_exp_def e0_def[symmetric] by simp
  next
    assume "\<exists>r. fl64 e0 = Fin r \<and> \<bar>r - e0\<bar> \<le> e0 / 2 ^ 53 + 1 / 2 ^ 60"
    then obtain t where t: "fl64 e0 = Fin t" "\<bar>t - e0\<bar> \<le> e0 / 2 ^ 53 + 1 / 2 ^ 60" by blast
    from fl64_nonneg[of e0] e0 t(1) have t0: "0 \<le> t" by auto
    have s1: "0 < 1 + t" "1 \<le> 1 + t" using t0 by simp_all
    from fl64_error[OF s1(1)] show ?thesis
    proof
      assume inf: "fl64 (1 + t) = PInf"
      from fl64_PInf[OF s1(1) inf] have "2 ^ 60 \<le> 1 + t" .
      moreover have "t \<le> e0 + e0 / 2 ^ 53 + 1 / 2 ^ 60" using t(2) by (simp add: abs_le_iff)
      moreover have "e0 / 2 ^ 53 \<le> e0" using e0 by (simp add: field_simps)
      ultimately have "(2::real) ^ 57 \<le> e0" by simp
      from small[OF this] inf show ?thesis
        unfolding sigmoid64_def np_exp_def e0_def[symmetric] t(1) by simp
    next
      assume "\<exists>r. fl64 (1 + t) = Fin r \<and> \<bar>r - (1 + t)\<bar> \<le> (1 + t) / 2 ^ 53 + 1 / 2 ^ 60"
      then obtain d where d: "fl64 (1 + t) = Fin d"
        "\<bar>d - (1 + t)\<bar> \<le> (1 + t) / 2 ^ 53 + 1 / 2 ^ 60" by blast
      from fl64_ge_one[OF s1(2)] d(1) have d1: "1 \<le> d" by auto
      then have dn: "d \<noteq> 0" "0 < 1 / d" "1 / d \<le> 1" by simp_all
      from fl64_le_one[of "1 / d"] dn obtain v where v: "fl64 (1 / d) = Fin v" by auto
      from fl64_error[OF dn(2)] v
      have ve: "\<bar>v - 1 / d\<bar> \<le> 1 / d / 2 ^ 53 + 1 / 2 ^ 60" by auto
      have "1 / d / 2 ^ 53 \<le> 1 / 2 ^ 53"
        using dn(3) by (intro divide_right_mono) simp_all
      with ve have a1: "\<bar>v - 1 / d\<bar> \<le> 1 / 2 ^ 53 + 1 / 2 ^ 60" by linarith
      have a2: "\<bar>1 / d - 1 / (1 + t)\<bar> \<le> 1 / 2 ^ 53 + 1 / 2 ^ 60"
        using d(2) by (intro recip_diff[OF d1 s1(2)]) simp_all
      have "\<bar>(1 + t) - (1 + e0)\<bar> \<le> e0 / 2 ^ 53 + 1 / 2 ^ 60" using t(2) by simp
      also have "\<dots> \<le> 1 / 2 ^ 53 * (1 + e0) + 1 / 2 ^ 60" by simp
      finally have a3: "\<bar>1 / (1 + t) - 1 / (1 + e0)\<bar> \<le> 1 / 2 ^ 53 + 1 / 2 ^ 60"
        using e0 by (intro recip_diff[OF s1(2)]) simp_all
      have "\<bar>v - sigmoid1 z\<bar> \<le>
          \<bar>v - 1 / d\<bar> + \<bar>1 / d - 1 / (1 + t)\<bar> + \<bar>1 / (1 + t) - 1 / (1 + e0)\<bar>"
        unfolding s by linarith
      also have "\<dots> \<le> (1 / 2 ^ 53 + 1 / 2 ^ 60) + (1 / 2 ^ 53 + 1 / 2 ^ 60) +
          (1 / 2 ^ 53 + 1 / 2 ^ 60)"
        by (rule add_mono[OF add_mono[OF a1 a2] a3])
      also have "\<dots> \<le> 1 / 2 ^ 51" by simp
      finally have "\<bar>v - sigmoid1 z\<bar> \<le> 1 / 2 ^ 51" .
      with v d(1) dn(1) show ?thesis
        unfolding sigmoid64_def np_exp_def e0_def[symmetric] t(1) by simp
    qed
  qed
qed

lemma sigmoid1_symmetry: "sigmoid1 z + sigmoid1 (- z) = 1"
proof -
  have pos: "0 < exp (- z)" "0 < exp z" by simp_all
  have nz: "1 + exp z \<noteq> 0" using pos(2) by linarith
  have f: "1 / (1 + exp (- z)) = exp z / (1 + exp z)"
    using pos by (simp add: exp_minus field_simps)
  have "exp z / (1 + exp z) + 1 / (1 + exp z) = (exp z + 1) / (1 + exp z)"
    by (simp add: add_divide_distrib)
  also have "\<dots> = 1" using nz by (simp add: add.commute)
  finally show ?thesis unfolding sigmoid1_def using f by simp
qed

lemma sigmoid64_symmetry:
  "\<exists>v v'. sigmoid64 z = Fin v \<and> sigmoid64 (- z) = Fin v' \<and> \<bar>v + v' - 1\<bar> \<le> 1 / 2 ^ 50"
proof -
  from sigmoid64_error[of z] obtain v where
    v: "sigmoid64 z = Fin v" "\<bar>v - sigmoid1 z\<bar> \<le> 1 / 2 ^ 51" by blast
  from sigmoid64_error[of "- z"] obtain v' where
    v': "sigmoid64 (- z) = Fin v'" "\<bar>v' - sigmoid1 (- z)\<bar> \<le> 1 / 2 ^ 51" by blast
  have "v + v' - 1 = (v - sigmoid1 z) + (v' - sigmoid1 (- z))"
    using sigmoid1_symmetry[of z] by simp
  then have "\<bar>v + v' - 1\<bar> \<le> \<bar>v - sigmoid1 z\<bar> + \<bar>v' - sigmoid1 (- z)\<bar>" by linarith
  also have "\<dots> \<le> 1 / 2 ^ 51 + 1 / 2 ^ 51" using v(2) v'(2) by linarith
  also have "\<dots> = (1::real) / 2 ^ 50" by simp
  finally show ?thesis using v(1) v'(1) by blast
qed

lemma fl64_overflow:
  assumes "overflow_threshold \<le> x"
  shows "fl64 x = PInf"
proof -
  define e where "e = \<lfloor>log 2 x\<rfloor>"
  have x1: "1 < x" using assms overflow_threshold_gt_one by linarith
  then have x: "0 < x" "\<bar>x\<bar> = x" "x \<noteq> 0" by simp_all
  have "(2::real) powr real_of_int 1024 = 2 ^ 1024"
    using powr_realpow[of "2::real" 1024] by simp
  with assms have "2 powr real_of_int 1024 \<le> x" by (simp add: overflow_threshold_def)
  then have "real_of_int 1024 \<le> log 2 x"
    using x(1) le_log_iff[of 2 x "real_of_int 1024"] by simp
  then have e0: "1024 \<le> e" unfolding e_def by (simp add: le_floor_iff)
  then have "max e (- 1022) = e" by simp
  then have q: "quantum x = 2 powr (real_of_int e - 52)"
    unfolding quantum_def x(2) e_def[symmetric] by (simp only:)
  have lo: "2 powr real_of_int e \<le> x" unfolding e_def by (rule floor_log2(1)[OF x(1)])
  have "real_of_int (2 ^ 52) = 2 powr real_of_int e / quantum x"
    unfolding q by (simp add: powr_diff)
  also have "\<dots> \<le> x / quantum x"
    using lo quantum_pos[of x] by (simp add: divide_right_mono)
  finally have "2 ^ 52 \<le> round_even (x / quantum x)" by (rule round_even_ge)
  then have "real_of_int (2 ^ 52) \<le> real_of_int (round_even (x / quantum x))"
    by (simp only: of_int_le_iff)
  then have "real_of_int (2 ^ 52) * quantum x \<le>
      real_of_int (round_even (x / quantum x)) * quantum x"
    using quantum_pos[of x] by (simp only: mult_le_cancel_right_pos)
  moreover have "real_of_int (2 ^ 52) * quantum x = 2 powr real_of_int e"
    unfolding q by (simp add: powr_diff)
  moreover have "(2::real) powr real_of_int 1024 \<le> 2 powr real_of_int e"
    using e0 by (intro powr_mono) simp_all
  moreover have "(2::real) powr real_of_int 1024 = overflow_threshold"
    unfolding overflow_threshold_def using powr_realpow[of "2::real" 1024] by simp
  ultimately have "overflow_threshold \<le> real_of_int (round_even (x / quantum x)) * quantum x"
    by linarith
  then show ?thesis using x(3) by (simp add: fl64_def)
qed

lemma exp_1024_overflows: "overflow_threshold \<le> exp (1024 :: real)"
proof -
  have "(2::real) \<le> exp 1" using exp_ge_add_one_self[of "1::real"] by simp
  then have "(2::real) ^ 1024 \<le> exp 1 ^ 1024" by (intro power_mono) simp_all
  also have "\<dots> = exp (of_nat 1024 * 1)" by (simp only: exp_of_nat_mult)
  also have "\<dots> = exp 1024" by simp
  finally show ?thesis unfolding overflow_threshold_def .
qed

lemma sigmoid64_underflows: "sigmoid64 (- 1024) = Fin 0"
proof -
  have "np_exp (- (- 1024)) = PInf"
    unfolding np_exp_def using fl64_overflow[OF exp_1024_overflows] by simp
  then show ?thesis unfolding sigmoid64_def by simp
qed

section \<open>Training on the logical AND data\<close>

lemma forward_and:
  "forward X_and [w1, w2] bv =
     Inr [sigmoid1 bv, sigmoid1 (w2 + bv), sigmoid1 (w1 + bv), sigmoid1 (w1 + w2 + bv)]"
  by (simp add: forward_def dot_mv_def X_and_def inner_def sigmoid_def)

lemma mean_log_loss_and: "\<exists>l. mean_log_loss y_and [p0, p1, p2, p3] = Inr l"
  by (simp add: mean_log_loss_def broadcast_def y_and_def)

lemma gradient_descend_and:
  "gradient_descend X_and y_and (1/10) [p0, p1, p2, p3] ([w1, w2], bv) =
     Inr ([w1 - (p2 + p3 - 1) / 40, w2 - (p1 + p3 - 1) / 40],
          bv - (p0 + p1 + p2 + p3 - 1) / 40)"
  by (simp add: gradient_descend_def broadcast_def y_and_def n_rows_def X_and_def
      dot_tv_def column_def inner_def upt_rec)

lemma train_step_and:
  "train_step X_and y_and (1/10) ([w, w], bv) =
     Inr ([fst (and_step (w, bv)), fst (and_step (w, bv))], snd (and_step (w, bv)))"
proof -
  let ?yp = "[sigmoid1 bv, sigmoid1 (w + bv), sigmoid1 (w + bv), sigmoid1 (2 * w + bv)]"
  have fw: "forward X_and [w, w] bv = Inr ?yp" by (simp add: forward_and)
  obtain l where l: "mean_log_loss y_and ?yp = Inr l"
    using mean_log_loss_and by blast
  have g: "gradient_descend X_and y_and (1/10) ?yp ([w, w], bv) =
      Inr ([fst (and_step (w, bv)), fst (and_step (w, bv))], snd (and_step (w, bv)))"
    unfolding gradient_descend_and and_step_def by (simp add: algebra_simps)
  show ?thesis
    unfolding train_step_def fst_conv snd_conv fw bind_Inr l g ..
qed

lemma train_steps_and:
  "train_steps X_and y_and (1/10) k ([w, w], bv) =
     Inr ([fst ((and_step ^^ k) (w, bv)), fst ((and_step ^^ k) (w, bv))],
          snd ((and_step ^^ k) (w, bv)))"
proof (induction k arbitrary: w bv)
  case 0
  then show ?case by simp
next
  case (Suc k)
  have "(and_step ^^ Suc k) (w, bv) =
        (and_step ^^ k) (fst (and_step (w, bv)), snd (and_step (w, bv)))"
    by (simp add: funpow_swap1)
  then show ?case
    by (simp add: train_step_and Suc.IH del: funpow.simps)
qed

subsection \<open>The invariant set\<close>

lemma sigmoid1_exp: "sigmoid1 z = exp z / (1 + exp z)"
proof -
  have "0 < exp z" by simp
  then show ?thesis unfolding sigmoid1_def by (simp add: exp_minus field_simps)
qed

lemma frac_mono:
  fixes s t :: real
  assumes "0 \<le> s" and "s \<le> t"
  shows "s / (1 + s) \<le> t / (1 + t)"
proof -
  have "1 / (1 + t) \<le> 1 / (1 + s)"
    using assms by (intro divide_left_mono) (simp_all add: mult_pos_pos)
  moreover have "x / (1 + x) = 1 - 1 / (1 + x)" if "0 \<le> x" for x :: real
  proof -
    have "1 + x \<noteq> 0" using that by simp
    then show ?thesis by (simp add: field_simps)
  qed
  ultimately show ?thesis using assms by simp
qed

lemma sigmoid1_upper:
  assumes "exp z \<le> t"
  shows "sigmoid1 z \<le> t / (1 + t)"
  unfolding sigmoid1_exp using assms by (intro frac_mono) simp_all

lemma sigmoid1_lower:
  assumes "0 \<le> s" and "s \<le> exp z"
  shows "s / (1 + s) \<le> sigmoid1 z"
  unfolding sigmoid1_exp using assms by (intro frac_mono) simp_all

lemma sigmoid1_gt_half_iff: "1 / 2 < sigmoid1 z \<longleftrightarrow> 0 < z"
proof -
  have e: "0 < 1 + exp z" by (simp add: add_pos_pos)
  have "1 / 2 < exp z / (1 + exp z) \<longleftrightarrow> 1 / 2 * (1 + exp z) < exp z"
    using e by (simp only: pos_less_divide_eq)
  also have "\<dots> \<longleftrightarrow> 1 < exp z" by auto
  finally show ?thesis unfolding sigmoid1_exp by simp
qed

lemma exp_eighth: "exp (1 / 8 :: real) \<le> 73 / 64"
  using exp_bound[of "1 / 8 :: real"] by (simp add: power2_eq_square)

lemma exp_fortieth: "exp (1 / 40 :: real) \<le> 1641 / 1600"
  using exp_bound[of "1 / 40 :: real"] by (simp add: power2_eq_square)

lemma and_step_coords:
  "snd (and_step (w, bv)) =
     bv - (sigmoid1 bv + 2 * sigmoid1 (w + bv) + sigmoid1 (2 * w + bv) - 1) / 40"
  "2 * fst (and_step (w, bv)) + snd (and_step (w, bv)) =
     (2 * w + bv) -
       (sigmoid1 bv + 4 * sigmoid1 (w + bv) + 3 * sigmoid1 (2 * w + bv) - 3) / 40"
  by (simp_all add: and_step_def field_simps)

lemma region_step:
  assumes "region p"
  shows "region (and_step p)"
proof -
  obtain w bv where p: "p = (w, bv)" by (cases p)
  define V where "V = exp bv"
  define P where "P = exp (w + bv)"
  define Q where "Q = exp (2 * w + bv)"
  have pos: "0 < V" "0 < P" "0 < Q" by (simp_all add: V_def P_def Q_def)
  from assms have V: "V \<le> 1 / 6" and Q: "101 / 100 \<le> Q"
    by (simp_all add: region_def p V_def Q_def)
  have PP: "P * P = V * Q"
    unfolding P_def V_def Q_def by (simp add: exp_add[symmetric])
  define sa where "sa = sigmoid1 bv"
  define sc where "sc = sigmoid1 (w + bv)"
  define sd where "sd = sigmoid1 (2 * w + bv)"
  have s01: "0 < sa" "sa < 1" "0 < sc" "sc < 1" "0 < sd" "sd < 1"
    unfolding sa_def sc_def sd_def by (simp_all add: sigmoid1_bounds)
  have b': "snd (and_step p) = bv - (sa + 2 * sc + sd - 1) / 40"
    and d': "2 * fst (and_step p) + snd (and_step p) =
             (2 * w + bv) - (sa + 4 * sc + 3 * sd - 3) / 40"
    unfolding p sa_def sc_def sd_def by (rule and_step_coords)+
  have 1: "101 / 100 \<le> exp (2 * fst (and_step p) + snd (and_step p))"
  proof (cases "Q < 7373 / 6400")
    case True
    have "sa \<le> (1 / 6) / (1 + 1 / 6)"
      unfolding sa_def using V by (intro sigmoid1_upper) (simp add: V_def)
    then have a: "sa \<le> 1 / 7" by simp
    have "sd \<le> (7373 / 6400) / (1 + 7373 / 6400)"
      unfolding sd_def using True by (intro sigmoid1_upper) (simp add: Q_def)
    then have d: "sd \<le> 27 / 50" by simp
    have "P * P \<le> (1 / 6) * (7373 / 6400)"
      unfolding PP using V True pos by (intro mult_mono) simp_all
    then have "P * P \<le> (11 / 25) * (11 / 25)" by simp
    then have "P\<^sup>2 \<le> (11 / 25)\<^sup>2" by (simp only: power2_eq_square)
    then have "P \<le> 11 / 25" by (rule power2_le_imp_le) simp
    then have "sc \<le> (11 / 25) / (1 + 11 / 25)"
      unfolding sc_def by (intro sigmoid1_upper) (simp add: P_def)
    then have c: "sc \<le> 11 / 36" by simp
    from a c d have "sa + 4 * sc + 3 * sd - 3 \<le> 0" by simp
    then have "2 * w + bv \<le> 2 * fst (and_step p) + snd (and_step p)"
      unfolding d' by simp
    then have "Q \<le> exp (2 * fst (and_step p) + snd (and_step p))"
      unfolding Q_def by simp
    with Q show ?thesis by simp
  next
    case False
    have "sa + 4 * sc + 3 * sd - 3 \<le> 5" using s01 by simp
    then have "(2 * w + bv) - 1 / 8 \<le> 2 * fst (and_step p) + snd (and_step p)"
      unfolding d' by simp
    then have "exp ((2 * w + bv) - 1 / 8) \<le> exp (2 * fst (and_step p) + snd (and_step p))"
      by simp
    moreover have "exp ((2 * w + bv) - 1 / 8) = Q / exp (1 / 8)"
      unfolding Q_def by (simp add: exp_diff)
    ultimately have B: "Q / exp (1 / 8) \<le> exp (2 * fst (and_step p) + snd (and_step p))"
      by (simp only:)
    have A: "101 / 100 \<le> Q / exp (1 / 8)"
    proof -
      have "101 / 100 * exp (1 / 8 :: real) \<le> 101 / 100 * (73 / 64)"
        using exp_eighth by simp
      also have "\<dots> \<le> Q" using False by simp
      finally show ?thesis by (simp add: pos_le_divide_eq)
    qed
    from A B show ?thesis by (rule order_trans)
  qed
  have 2: "exp (snd (and_step p)) \<le> 1 / 6"
  proof (cases "V \<le> 4 / 25")
    case True
    have "- 1 \<le> sa + 2 * sc + sd - 1" using s01 by simp
    then have "snd (and_step p) \<le> bv + 1 / 40" unfolding b' by simp
    then have "exp (snd (and_step p)) \<le> exp (bv + 1 / 40)" by simp
    also have "\<dots> = V * exp (1 / 40)" unfolding V_def by (simp add: exp_add)
    also have "\<dots> \<le> (4 / 25) * (1641 / 1600)"
      using True exp_fortieth pos by (intro mult_mono) simp_all
    also have "\<dots> \<le> 1 / 6" by simp
    finally show ?thesis .
  next
    case False
    have "(101 / 100) / (1 + 101 / 100) \<le> sd"
      unfolding sd_def using Q by (intro sigmoid1_lower) (simp_all add: Q_def)
    then have d: "1 / 2 \<le> sd" by simp
    have "(4 / 25) * (101 / 100) \<le> V * Q"
      using False Q pos by (intro mult_mono) simp_all
    then have "(2 / 5) * (2 / 5) \<le> P * P" unfolding PP by simp
    then have "(2 / 5)\<^sup>2 \<le> P\<^sup>2" by (simp only: power2_eq_square)
    then have "2 / 5 \<le> P" by (rule power2_le_imp_le) (use pos(2) in simp)
    then have "(2 / 5) / (1 + 2 / 5) \<le> sc"
      unfolding sc_def by (intro sigmoid1_lower) (simp_all add: P_def)
    then have c: "2 / 7 \<le> sc" by simp
    from c d s01(1) have "0 \<le> sa + 2 * sc + sd - 1" by simp
    then have "snd (and_step p) \<le> bv" unfolding b' by simp
    then have "exp (snd (and_step p)) \<le> V" unfolding V_def by simp
    with V show ?thesis by simp
  qed
  from 1 2 show ?thesis by (simp add: region_def)
qed

lemma region_steps: "region p \<Longrightarrow> region ((and_step ^^ k) p)"
  by (induction k) (simp_all add: region_step)

subsection \<open>Fixed-point arithmetic\<close>

lemma ONE_pos: "0 < ONE" "0 < real_of_int ONE"
  by (simp_all add: ONE_def)

lemma mul_dn_div: "mul_dn a b = (a * b) div ONE"
  by (simp add: mul_dn_def drop_bit_eq_div ONE_def)

lemma mul_up_div: "mul_up a b = - ((- (a * b)) div ONE)"
  by (simp add: mul_up_def drop_bit_eq_div ONE_def)

lemma of_int_div_le:
  assumes "0 < m"
  shows "real_of_int (k div m) \<le> real_of_int k / real_of_int m"
proof -
  have "real_of_int (k div m) = real_of_int \<lfloor>real_of_int k / real_of_int m\<rfloor>"
    by (simp add: floor_divide_of_int_eq)
  also have "\<dots> \<le> real_of_int k / real_of_int m" by (rule of_int_floor_le)
  finally show ?thesis .
qed

lemma of_int_cdiv_ge:
  assumes "0 < m"
  shows "real_of_int k / real_of_int m \<le> real_of_int (cdiv k m)"
proof -
  have "real_of_int ((- k) div m) \<le> real_of_int (- k) / real_of_int m"
    using assms by (rule of_int_div_le)
  then show ?thesis by (simp add: cdiv_def)
qed

lemma div_nonneg: "0 \<le> k \<Longrightarrow> 0 < m \<Longrightarrow> 0 \<le> k div (m::int)"
  by (simp add: pos_imp_zdiv_nonneg_iff)

lemma frac_scale:
  fixes a c :: real
  assumes "0 < c" and "0 < c + a"
  shows "a * c / (c + a) / c = (a / c) / (1 + a / c)"
proof -
  have "1 + a / c = (c + a) / c" using assms(1) by (simp add: add_divide_distrib)
  then have "(a / c) / (1 + a / c) = a / (c + a)" using assms by simp
  moreover have "a * c / (c + a) / c = a / (c + a)" using assms by simp
  ultimately show ?thesis by (simp only:)
qed

lemma fx_mult: "fx a * fx b = real_of_int (a * b) / real_of_int ONE / real_of_int ONE"
  by (simp add: fx_def)

lemma fx_mul_dn:
  assumes "0 \<le> a" and "0 \<le> b" and "fx a \<le> x" and "fx b \<le> y"
  shows "fx (mul_dn a b) \<le> x * y" and "0 \<le> mul_dn a b"
proof -
  have "real_of_int ((a * b) div ONE) \<le> real_of_int (a * b) / real_of_int ONE"
    using ONE_pos(1) by (rule of_int_div_le)
  then have "real_of_int ((a * b) div ONE) / real_of_int ONE
               \<le> real_of_int (a * b) / real_of_int ONE / real_of_int ONE"
    by (rule divide_right_mono) (use ONE_pos(2) in simp)
  then have "fx (mul_dn a b) \<le> fx a * fx b"
    unfolding fx_mult by (simp only: fx_def mul_dn_div)
  also have "\<dots> \<le> x * y"
    using assms ONE_pos(2) by (intro mult_mono') (simp_all add: fx_def)
  finally show "fx (mul_dn a b) \<le> x * y" .
  show "0 \<le> mul_dn a b"
    unfolding mul_dn_div using assms ONE_pos(1) by (intro div_nonneg) simp_all
qed

lemma fx_mul_up:
  assumes "0 \<le> x" and "0 \<le> y" and "x \<le> fx a" and "y \<le> fx b"
  shows "x * y \<le> fx (mul_up a b)"
proof -
  have "x * y \<le> fx a * fx b" using assms by (intro mult_mono') simp_all
  also have "real_of_int (a * b) / real_of_int ONE / real_of_int ONE
          \<le> real_of_int (cdiv (a * b) ONE) / real_of_int ONE"
    using of_int_cdiv_ge[OF ONE_pos(1), of "a * b"]
    by (rule divide_right_mono) (use ONE_pos(2) in simp)
  then have "fx a * fx b \<le> fx (mul_up a b)"
    unfolding fx_mult by (simp only: fx_def mul_up_div cdiv_def)
  finally show ?thesis .
qed

lemma fx_sig_dn:
  assumes "0 \<le> a" and "fx a \<le> exp z"
  shows "fx (sig_dn a) \<le> sigmoid1 z"
proof -
  have p: "0 < ONE + a" "0 < real_of_int ONE + real_of_int a"
    using assms(1) ONE_pos by simp_all
  have "real_of_int ((a * ONE) div (ONE + a)) \<le> real_of_int (a * ONE) / real_of_int (ONE + a)"
    using p(1) by (rule of_int_div_le)
  then have "real_of_int ((a * ONE) div (ONE + a)) / real_of_int ONE
        \<le> real_of_int (a * ONE) / real_of_int (ONE + a) / real_of_int ONE"
    by (rule divide_right_mono) (use ONE_pos(2) in simp)
  also have "real_of_int (a * ONE) / real_of_int (ONE + a) / real_of_int ONE =
        fx a / (1 + fx a)"
    using frac_scale[OF ONE_pos(2) p(2)] by (simp add: fx_def)
  finally have "fx (sig_dn a) \<le> fx a / (1 + fx a)"
    by (simp only: fx_def sig_dn_def div_dn_def)
  also have "\<dots> \<le> sigmoid1 z"
    using assms ONE_pos(2) by (intro sigmoid1_lower) (simp_all add: fx_def)
  finally show ?thesis .
qed

lemma fx_sig_up:
  assumes "0 \<le> a" and "exp z \<le> fx a"
  shows "sigmoid1 z \<le> fx (sig_up a)"
proof -
  have p: "0 < ONE + a" "0 < real_of_int ONE + real_of_int a"
    using assms(1) ONE_pos by simp_all
  have "sigmoid1 z \<le> fx a / (1 + fx a)" using assms(2) by (rule sigmoid1_upper)
  also have "fx a / (1 + fx a) =
      real_of_int (a * ONE) / real_of_int (ONE + a) / real_of_int ONE"
    using frac_scale[OF ONE_pos(2) p(2)] by (simp add: fx_def)
  also have "real_of_int (a * ONE) / real_of_int (ONE + a) / real_of_int ONE
     \<le> real_of_int (cdiv (a * ONE) (ONE + a)) / real_of_int ONE"
    using of_int_cdiv_ge[OF p(1), of "a * ONE"]
    by (rule divide_right_mono) (use ONE_pos(2) in simp)
  finally show ?thesis by (simp only: fx_def sig_up_def div_up_def cdiv_def)
qed

lemma exp_taylor:
  fixes x :: real
  assumes "0 \<le> x"
  shows "1 + x + x^2 / 2 + x^3 / 6 \<le> exp x"
    and "x \<le> 1 / 8 \<Longrightarrow> exp x \<le> 1 + x + x^2 / 2 + x^3 / 5"
proof -
  from Maclaurin_exp_le[of x 4] obtain t where
    t: "\<bar>t\<bar> \<le> \<bar>x\<bar>" and
    e: "exp x = (\<Sum>m<4. x ^ m / fact m) + exp t / fact 4 * x ^ 4"
    by blast
  have s: "(\<Sum>m<4. x ^ m / fact m) = 1 + x + x^2 / 2 + x^3 / 6"
    by (simp add: eval_nat_numeral lessThan_Suc fact_numeral)
  have r0: "0 \<le> exp t / fact 4 * x ^ 4" using assms by simp
  have "1 + x + x^2 / 2 + x^3 / 6 + 0 \<le>
        1 + x + x^2 / 2 + x^3 / 6 + exp t / fact 4 * x ^ 4"
    by (rule add_left_mono[OF r0])
  then show "1 + x + x^2 / 2 + x^3 / 6 \<le> exp x"
    by (simp only: e s add_0_right)
  assume x8: "x \<le> 1 / 8"
  have "t \<le> 1" using t assms x8 by simp
  then have et: "exp t \<le> 3" by (intro order_trans[OF _ exp_le]) simp
  have "x ^ 4 = x * x ^ 3" by (simp add: eval_nat_numeral)
  also have "\<dots> \<le> (1 / 8) * x ^ 3" using x8 assms by (intro mult_right_mono) simp_all
  finally have x4: "x ^ 4 \<le> x ^ 3 / 8" by simp
  have "exp t / fact 4 * x ^ 4 \<le> 3 / fact 4 * (x ^ 3 / 8)"
    using et x4 assms by (intro mult_mono divide_right_mono) simp_all
  also have "\<dots> = x ^ 3 / 64" by (simp add: fact_numeral)
  finally have r: "exp t / fact 4 * x ^ 4 \<le> x ^ 3 / 64" .
  have "exp x = 1 + x + x^2 / 2 + x^3 / 6 + exp t / fact 4 * x ^ 4"
    by (simp only: e s)
  also have "\<dots> \<le> 1 + x + x^2 / 2 + x^3 / 6 + x ^ 3 / 64"
    by (rule add_left_mono[OF r])
  finally have "exp x \<le> 1 + x + x^2 / 2 + x^3 / 6 + x ^ 3 / 64" .
  moreover have "0 \<le> x ^ 3" using assms by simp
  ultimately show "exp x \<le> 1 + x + x^2 / 2 + x^3 / 5" by linarith
qed

lemma fx_add [simp]: "fx (a + b) = fx a + fx b"
  by (simp add: fx_def add_divide_distrib)

lemma fx_ONE [simp]: "fx ONE = 1"
  using ONE_pos(2) by (simp add: fx_def)

lemma fx_nonneg: "0 \<le> a \<Longrightarrow> 0 \<le> fx a"
  using ONE_pos(2) by (simp add: fx_def)

lemma fx_div_le:
  assumes "0 < k"
  shows "fx (a div k) \<le> fx a / real_of_int k"
proof -
  have "real_of_int (a div k) / real_of_int ONE \<le> real_of_int a / real_of_int k / real_of_int ONE"
    using of_int_div_le[OF assms, of a]
    by (rule divide_right_mono) (use ONE_pos(2) in simp)
  then show ?thesis by (simp add: fx_def mult.commute)
qed

lemma fx_cdiv_ge:
  assumes "0 < k"
  shows "fx a / real_of_int k \<le> fx (cdiv a k)"
proof -
  have "real_of_int a / real_of_int k / real_of_int ONE \<le> real_of_int (cdiv a k) / real_of_int ONE"
    using of_int_cdiv_ge[OF assms, of a]
    by (rule divide_right_mono) (use ONE_pos(2) in simp)
  then show ?thesis by (simp add: fx_def mult.commute)
qed

lemma cdiv_nonneg:
  assumes "0 \<le> a" and "0 < k"
  shows "0 \<le> cdiv a k"
proof -
  have "0 \<le> real_of_int a / real_of_int k" using assms by simp
  also have "\<dots> \<le> real_of_int (cdiv a k)" using assms(2) by (rule of_int_cdiv_ge)
  finally show ?thesis by simp
qed

lemma cdiv_le:
  assumes "0 < k" and "a \<le> k * c"
  shows "cdiv a k \<le> c"
proof -
  have "- (k * c) \<le> - a" using assms(2) by simp
  then have "(- (k * c)) div k \<le> (- a) div k" using assms(1) by (rule zdiv_mono1)
  moreover have "(- (k * c)) div k = - c"
  proof -
    have "- (k * c) = k * (- c)" by simp
    moreover have "(k * (- c)) div k = - c"
      using assms(1) by (intro nonzero_mult_div_cancel_left) simp
    ultimately show ?thesis by (simp only:)
  qed
  ultimately show ?thesis by (simp add: cdiv_def)
qed

lemma mul_up_nonneg:
  assumes "0 \<le> a" and "0 \<le> b"
  shows "0 \<le> mul_up a b"
  unfolding mul_up_div using cdiv_nonneg[of "a * b" ONE] assms ONE_pos(1)
  by (simp add: cdiv_def)

lemma fx_tay_dn:
  assumes n: "0 \<le> n" and x: "fx n / 40 \<le> x"
  shows "fx (tay_dn n) \<le> exp x" and "0 < tay_dn n"
proof -
  define z where "z = n div 40"
  define z2 where "z2 = mul_dn z z"
  define z3 where "z3 = mul_dn z2 z"
  define t where "t = fx z"
  have z0: "0 \<le> z" unfolding z_def using n by (intro div_nonneg) simp_all
  have t0: "0 \<le> t" unfolding t_def using z0 by (rule fx_nonneg)
  have "fx z \<le> fx n / real_of_int 40" unfolding z_def by (rule fx_div_le) simp
  then have tx: "t \<le> x" unfolding t_def using x by simp
  have z2b: "fx z2 \<le> t * t" "0 \<le> z2"
    using fx_mul_dn[OF z0 z0 order_refl order_refl] by (simp_all add: z2_def t_def)
  have z3b: "fx z3 \<le> (t * t) * t" "0 \<le> z3"
    unfolding z3_def using fx_mul_dn[OF z2b(2) z0 z2b(1), of t] by (simp_all add: t_def)
  have d2: "fx (z2 div 2) \<le> fx z2 / 2" using fx_div_le[of 2 z2] by simp
  have d3: "fx (z3 div 6) \<le> fx z3 / 6" using fx_div_le[of 6 z3] by simp
  have eq: "tay_dn n = ONE + z + z2 div 2 + z3 div 6"
    by (simp add: tay_dn_def tay_dn1_def tay_dn2_def tay_dn3_def z_def z2_def z3_def)
  have "fx (tay_dn n) \<le> 1 + t + t^2 / 2 + t^3 / 6"
    unfolding eq using z2b(1) z3b(1) d2 d3
    by (simp add: t_def power2_eq_square power3_eq_cube)
  also have "\<dots> \<le> exp t" using t0 by (rule exp_taylor(1))
  also have "\<dots> \<le> exp x" using tx by simp
  finally show "fx (tay_dn n) \<le> exp x" .
  have "0 \<le> z2 div 2" "0 \<le> z3 div 6"
    using z2b(2) z3b(2) by (simp_all add: div_nonneg)
  then show "0 < tay_dn n" unfolding eq using z0 ONE_pos(1) by simp
qed

lemma fx_tay_up:
  assumes n: "0 \<le> n" and n5: "n \<le> 5 * ONE" and x: "x \<le> fx n / 40"
  shows "exp x \<le> fx (tay_up n)" and "0 < tay_up n"
proof -
  define z where "z = cdiv n 40"
  define z2 where "z2 = mul_up z z"
  define z3 where "z3 = mul_up z2 z"
  define t where "t = fx z"
  have z0: "0 \<le> z" unfolding z_def using n by (intro cdiv_nonneg) simp_all
  have t0: "0 \<le> t" unfolding t_def using z0 by (rule fx_nonneg)
  have "fx n / real_of_int 40 \<le> fx z" unfolding z_def by (rule fx_cdiv_ge) simp
  then have tx: "x \<le> t" unfolding t_def using x by simp
  have "z \<le> 2097152"
    unfolding z_def using n5 by (intro cdiv_le) (simp_all add: ONE_def)
  then have "real_of_int z \<le> 2097152" by simp
  then have t8: "t \<le> 1 / 8" unfolding t_def fx_def by (simp add: ONE_def)
  have z2n: "0 \<le> z2" unfolding z2_def using z0 by (intro mul_up_nonneg)
  have z3n: "0 \<le> z3" unfolding z3_def using z2n z0 by (intro mul_up_nonneg)
  have z2b: "t * t \<le> fx z2"
    unfolding z2_def t_def using fx_nonneg[OF z0] by (intro fx_mul_up) simp_all
  have z3b: "(t * t) * t \<le> fx z3"
    unfolding z3_def using z2b t0 by (intro fx_mul_up) (simp_all add: t_def)
  have d2: "fx z2 / 2 \<le> fx (cdiv z2 2)" using fx_cdiv_ge[of 2 z2] by simp
  have d3: "fx z3 / 5 \<le> fx (cdiv z3 5)" using fx_cdiv_ge[of 5 z3] by simp
  have eq: "tay_up n = ONE + z + cdiv z2 2 + cdiv z3 5"
    by (simp add: tay_up_def tay_up1_def tay_up2_def tay_up3_def z_def z2_def z3_def)
  have "exp x \<le> exp t" using tx by simp
  also have "\<dots> \<le> 1 + t + t^2 / 2 + t^3 / 5"
    using t0 t8 by (rule exp_taylor(2))
  also have "\<dots> \<le> fx (tay_up n)"
    unfolding eq using z2b z3b d2 d3
    by (simp add: t_def power2_eq_square power3_eq_cube)
  finally show "exp x \<le> fx (tay_up n)" .
  have "0 \<le> cdiv z2 2" "0 \<le> cdiv z3 5"
    using z2n z3n by (simp_all add: cdiv_nonneg)
  then show "0 < tay_up n" unfolding eq using z0 ONE_pos(1) by simp
qed

lemma fx_diff [simp]: "fx (a - b) = fx a - fx b"
  by (simp add: fx_def diff_divide_distrib)

lemma fx_minus [simp]: "fx (- a) = - fx a"
  by (simp add: fx_def)

lemma fx_twice [simp]: "fx (2 * a) = 2 * fx a"
  by (simp add: fx_def)

lemma fx_pos_imp: "0 < fx a \<Longrightarrow> 0 < a"
  using ONE_pos(2) by (simp add: fx_def zero_less_divide_iff)

lemma fx_recip_dn:
  assumes "0 < T"
  shows "fx (div_dn ONE T) \<le> 1 / fx T" and "0 \<le> div_dn ONE T"
proof -
  have "real_of_int ((ONE * ONE) div T) / real_of_int ONE
        \<le> real_of_int (ONE * ONE) / real_of_int T / real_of_int ONE"
    using of_int_div_le[OF assms, of "ONE * ONE"]
    by (rule divide_right_mono) (use ONE_pos(2) in simp)
  also have "\<dots> = 1 / fx T" using ONE_pos(2) assms by (simp add: fx_def)
  finally show "fx (div_dn ONE T) \<le> 1 / fx T" by (simp only: fx_def div_dn_def)
  show "0 \<le> div_dn ONE T"
    unfolding div_dn_def using assms ONE_pos(1) by (intro div_nonneg) simp_all
qed

lemma fx_recip_up:
  assumes "0 < T"
  shows "1 / fx T \<le> fx (div_up ONE T)"
proof -
  have "1 / fx T = real_of_int (ONE * ONE) / real_of_int T / real_of_int ONE"
    using ONE_pos(2) assms by (simp add: fx_def)
  also have "\<dots> \<le> real_of_int (cdiv (ONE * ONE) T) / real_of_int ONE"
    using of_int_cdiv_ge[OF assms, of "ONE * ONE"]
    by (rule divide_right_mono) (use ONE_pos(2) in simp)
  finally show ?thesis by (simp only: fx_def div_up_def cdiv_def)
qed

lemma fx_e_dn:
  assumes "- (5 * ONE) \<le> n" and "fx n / 40 \<le> x"
  shows "fx (e_dn n) \<le> exp x" and "0 \<le> e_dn n"
proof -
  show "fx (e_dn n) \<le> exp x"
  proof (cases "0 \<le> n")
    case True
    then show ?thesis using fx_tay_dn(1)[OF True assms(2)] by (simp add: e_dn_def)
  next
    case False
    then have n: "0 \<le> - n" "- n \<le> 5 * ONE" using assms(1) by simp_all
    have x: "- x \<le> fx (- n) / 40" using assms(2) by simp
    note T = fx_tay_up[OF n x]
    have "fx (div_dn ONE (tay_up (- n))) \<le> 1 / fx (tay_up (- n))"
      using T(2) by (rule fx_recip_dn)
    also have "\<dots> \<le> 1 / exp (- x)"
      using T(1) by (intro divide_left_mono) (simp_all add: mult_pos_pos less_le_trans[OF exp_gt_zero])
    also have "\<dots> = exp x" by (simp add: exp_minus divide_inverse)
    finally show ?thesis using False by (simp add: e_dn_def)
  qed
  show "0 \<le> e_dn n"
  proof (cases "0 \<le> n")
    case True
    have "fx n / 40 \<le> fx n / 40" by simp
    from fx_tay_dn(2)[OF True this] show ?thesis using True by (simp add: e_dn_def)
  next
    case False
    then have n: "0 \<le> - n" "- n \<le> 5 * ONE" using assms(1) by simp_all
    have "fx (- n) / 40 \<le> fx (- n) / 40" by simp
    from fx_recip_dn(2)[OF fx_tay_up(2)[OF n this]] show ?thesis
      using False by (simp add: e_dn_def)
  qed
qed

lemma fx_e_up:
  assumes "n \<le> 5 * ONE" and "x \<le> fx n / 40"
  shows "exp x \<le> fx (e_up n)"
proof (cases "0 \<le> n")
  case True
  then show ?thesis using fx_tay_up(1)[OF True assms] by (simp add: e_up_def)
next
  case False
  then have n: "0 \<le> - n" by simp
  have x: "fx (- n) / 40 \<le> - x" using assms(2) by simp
  note T = fx_tay_dn[OF n x]
  have Tp: "0 < fx (tay_dn (- n))" using T(2) ONE_pos(2) by (simp add: fx_def)
  have "exp x = 1 / exp (- x)" by (simp add: exp_minus divide_inverse)
  also have "\<dots> \<le> 1 / fx (tay_dn (- n))"
    using T(1) Tp by (intro divide_left_mono) (simp_all add: mult_pos_pos)
  also have "\<dots> \<le> fx (div_up ONE (tay_dn (- n)))"
    using T(2) by (rule fx_recip_up)
  finally show ?thesis using False by (simp add: e_up_def)
qed

subsection \<open>The enclosures are sound\<close>

lemma and_step_exp:
  "exp (fst (and_step (w, bv))) =
     exp w * exp ((1 - sigmoid1 (w + bv) - sigmoid1 (2 * w + bv)) / 40)"
  "exp (snd (and_step (w, bv))) =
     exp bv * exp ((1 - sigmoid1 bv - 2 * sigmoid1 (w + bv) - sigmoid1 (2 * w + bv)) / 40)"
proof -
  have "fst (and_step (w, bv)) =
      w + (1 - sigmoid1 (w + bv) - sigmoid1 (2 * w + bv)) / 40"
    by (simp add: and_step_def field_simps)
  then show "exp (fst (and_step (w, bv))) =
     exp w * exp ((1 - sigmoid1 (w + bv) - sigmoid1 (2 * w + bv)) / 40)"
    by (simp only: exp_add)
  have "snd (and_step (w, bv)) =
      bv + (1 - sigmoid1 bv - 2 * sigmoid1 (w + bv) - sigmoid1 (2 * w + bv)) / 40"
    by (simp add: and_step_def field_simps)
  then show "exp (snd (and_step (w, bv))) =
     exp bv * exp ((1 - sigmoid1 bv - 2 * sigmoid1 (w + bv) - sigmoid1 (2 * w + bv)) / 40)"
    by (simp only: exp_add)
qed

lemma box_step_sound:
  assumes c: "contains B p" and s: "box_step B = Some B'"
  shows "contains B' (and_step p)"
proof -
  obtain ul uh vl vh where B: "B = (ul, uh, vl, vh)" by (cases B)
  obtain w bv where p: "p = (w, bv)" by (cases p)
  define pl where "pl = mul_dn ul vl"
  define ph where "ph = mul_up uh vh"
  define ql where "ql = mul_dn ul pl"
  define qh where "qh = mul_up uh ph"
  define sal where "sal = sig_dn vl"
  define sah where "sah = sig_up vh"
  define scl where "scl = sig_dn pl"
  define sch where "sch = sig_up ph"
  define sdl where "sdl = sig_dn ql"
  define sdh where "sdh = sig_up qh"
  define nwl where "nwl = ONE - sch - sdh"
  define nwh where "nwh = ONE - scl - sdl"
  define nbl where "nbl = ONE - sah - 2 * sch - sdh"
  define nbh where "nbh = ONE - sal - 2 * scl - sdl"
  have st: "box_step B =
     (if 0 < ul \<and> 0 < vl \<and> - (5 * ONE) \<le> nwl \<and> nwh \<le> 5 * ONE \<and>
              - (5 * ONE) \<le> nbl \<and> nbh \<le> 5 * ONE
      then Some (mul_dn ul (e_dn nwl), mul_up uh (e_up nwh),
                 mul_dn vl (e_dn nbl), mul_up vh (e_up nbh))
      else None)"
    unfolding box_step_def B
    by (simp only: prod.case box_step1_def box_step2_def box_step3_def pl_def ph_def ql_def
        qh_def sal_def sah_def scl_def sch_def sdl_def sdh_def nwl_def nwh_def nbl_def nbh_def)
  from s st have g: "0 < ul" "0 < vl" "- (5 * ONE) \<le> nwl" "nwh \<le> 5 * ONE"
      "- (5 * ONE) \<le> nbl" "nbh \<le> 5 * ONE"
    and B': "B' = (mul_dn ul (e_dn nwl), mul_up uh (e_up nwh),
                 mul_dn vl (e_dn nbl), mul_up vh (e_up nbh))"
    by (auto split: if_splits)
  from c have u: "fx ul \<le> exp w" "exp w \<le> fx uh" and v: "fx vl \<le> exp bv" "exp bv \<le> fx vh"
    by (simp_all add: contains_def B p)
  have ul0: "0 \<le> ul" and vl0: "0 \<le> vl" using g by simp_all
  have e0: "0 \<le> exp w" "0 \<le> exp bv" by simp_all
  have P: "exp (w + bv) = exp w * exp bv" by (rule exp_add)
  have Q: "exp (2 * w + bv) = exp w * exp (w + bv)"
    by (simp add: exp_add[symmetric])
  have plb: "fx pl \<le> exp (w + bv)" "0 \<le> pl"
    unfolding pl_def P using fx_mul_dn[OF ul0 vl0 u(1) v(1)] by simp_all
  have phb: "exp (w + bv) \<le> fx ph"
    unfolding ph_def P using e0 u(2) v(2) by (intro fx_mul_up)
  have qlb: "fx ql \<le> exp (2 * w + bv)" "0 \<le> ql"
    unfolding ql_def Q using fx_mul_dn[OF ul0 plb(2) u(1) plb(1)] by simp_all
  have qhb: "exp (2 * w + bv) \<le> fx qh"
    unfolding qh_def Q using u(2) phb by (intro fx_mul_up) simp_all
  have hi0: "0 \<le> uh" "0 \<le> vh" "0 \<le> ph" "0 \<le> qh"
    using fx_pos_imp[of uh] fx_pos_imp[of vh] fx_pos_imp[of ph] fx_pos_imp[of qh]
      less_le_trans[OF exp_gt_zero u(2)] less_le_trans[OF exp_gt_zero v(2)]
      less_le_trans[OF exp_gt_zero phb] less_le_trans[OF exp_gt_zero qhb]
    by simp_all
  have sa: "fx sal \<le> sigmoid1 bv" "sigmoid1 bv \<le> fx sah"
    unfolding sal_def sah_def
    using fx_sig_dn[OF vl0 v(1)] fx_sig_up[OF hi0(2) v(2)] by simp_all
  have sc: "fx scl \<le> sigmoid1 (w + bv)" "sigmoid1 (w + bv) \<le> fx sch"
    unfolding scl_def sch_def
    using fx_sig_dn[OF plb(2) plb(1)] fx_sig_up[OF hi0(3) phb] by simp_all
  have sd: "fx sdl \<le> sigmoid1 (2 * w + bv)" "sigmoid1 (2 * w + bv) \<le> fx sdh"
    unfolding sdl_def sdh_def
    using fx_sig_dn[OF qlb(2) qlb(1)] fx_sig_up[OF hi0(4) qhb] by simp_all
  define dw where "dw = (1 - sigmoid1 (w + bv) - sigmoid1 (2 * w + bv)) / 40"
  define db where
    "db = (1 - sigmoid1 bv - 2 * sigmoid1 (w + bv) - sigmoid1 (2 * w + bv)) / 40"
  have dwb: "fx nwl / 40 \<le> dw" "dw \<le> fx nwh / 40"
    unfolding nwl_def nwh_def dw_def using sc sd by simp_all
  have dbb: "fx nbl / 40 \<le> db" "db \<le> fx nbh / 40"
    unfolding nbl_def nbh_def db_def using sa sc sd by simp_all
  have ew: "exp (fst (and_step p)) = exp w * exp dw"
    and eb: "exp (snd (and_step p)) = exp bv * exp db"
    unfolding p dw_def db_def by (rule and_step_exp)+
  note elw = fx_e_dn[OF g(3) dwb(1)]
  note ehw = fx_e_up[OF g(4) dwb(2)]
  note elb = fx_e_dn[OF g(5) dbb(1)]
  note ehb = fx_e_up[OF g(6) dbb(2)]
  have 1: "fx (mul_dn ul (e_dn nwl)) \<le> exp (fst (and_step p))"
    unfolding ew using fx_mul_dn(1)[OF ul0 elw(2) u(1) elw(1)] .
  have 2: "exp (fst (and_step p)) \<le> fx (mul_up uh (e_up nwh))"
    unfolding ew using u(2) ehw by (intro fx_mul_up) simp_all
  have 3: "fx (mul_dn vl (e_dn nbl)) \<le> exp (snd (and_step p))"
    unfolding eb using fx_mul_dn(1)[OF vl0 elb(2) v(1) elb(1)] .
  have 4: "exp (snd (and_step p)) \<le> fx (mul_up vh (e_up nbh))"
    unfolding eb using v(2) ehb by (intro fx_mul_up) simp_all
  from 1 2 3 4 show ?thesis by (simp add: contains_def B')
qed

lemma box_steps_sound:
  assumes "contains B p" and "box_steps k B = Some B'"
  shows "contains B' ((and_step ^^ k) p)"
  using assms
proof (induction k arbitrary: B p)
  case 0
  then show ?case by simp
next
  case (Suc k)
  from Suc.prems(2) obtain B1 where b1: "box_step B = Some B1"
    and r: "box_steps k B1 = Some B'"
    by (auto split: option.splits)
  from box_step_sound[OF Suc.prems(1) b1] have "contains B1 (and_step p)" .
  from Suc.IH[OF this r] show ?case by (simp add: funpow_swap1)
qed

subsection \<open>The first 180 iterations\<close>

lemma box_45:
  "box_steps 45 (16777216, 16777216, 16777216, 16777216) =
     Some (19985440, 19986055, 7998649, 7999108)"
  by code_simp

lemma box_90:
  "box_steps 45 (19985440, 19986055, 7998649, 7999108) =
     Some (26251034, 26256095, 5228934, 5230634)"
  by code_simp

lemma box_135:
  "box_steps 45 (26251034, 26256095, 5228934, 5230634) =
     Some (33888117, 33922209, 3728352, 3734336)"
  by code_simp

lemma box_180:
  "box_steps 45 (33888117, 33922209, 3728352, 3734336) =
     Some (42425113, 42634355, 2765932, 2786946)"
  by code_simp

lemma funpow_funpow: "(f ^^ m) ((f ^^ n) x) = (f ^^ (m + n)) x"
  by (simp add: funpow_add)

lemma contains_start: "contains (16777216, 16777216, 16777216, 16777216) (0, 0)"
  by (simp add: contains_def fx_def ONE_def)

lemma region_of_box:
  assumes "contains (42425113, 42634355, 2765932, 2786946) p"
  shows "region p"
proof -
  have u: "fx 42425113 \<le> exp (fst p)" and vl: "fx 2765932 \<le> exp (snd p)"
    and vh: "exp (snd p) \<le> fx 2786946"
    using assms by (simp_all add: contains_def)
  have "fx 2786946 \<le> 1 / 6" by (simp add: fx_def ONE_def)
  with vh have r1: "exp (snd p) \<le> 1 / 6" by linarith
  have u0: "0 \<le> fx 42425113" and v0: "0 \<le> fx 2765932" by (simp_all add: fx_def ONE_def)
  have "101 / 100 \<le> fx 42425113 * fx 42425113 * fx 2765932"
    by (simp add: fx_def ONE_def)
  also have "\<dots> \<le> exp (fst p) * exp (fst p) * exp (snd p)"
    using u vl u0 v0 by (intro mult_mono) simp_all
  also have "\<dots> = exp (2 * fst p + snd p)"
    by (simp add: exp_add[symmetric])
  finally show ?thesis using r1 by (simp add: region_def)
qed

lemma predict_and:
  assumes "region (w, bv)" and t: "threshold m = 1 / 2"
  shows "predict (m\<lparr>weights := Some [w, w], bias := Some bv\<rparr>)
           \<lparr>n_cols = 2, rows = [[1, 1]]\<rparr> = Inr [1]"
    and "predict (m\<lparr>weights := Some [w, w], bias := Some bv\<rparr>)
           \<lparr>n_cols = 2, rows = [[0, 0]]\<rparr> = Inr [0]"
proof -
  have "101 / 100 \<le> exp (2 * w + bv)" using assms by (simp add: region_def)
  then have "1 < exp (2 * w + bv)" by linarith
  then have p: "0 < 2 * w + bv" by (simp only: one_less_exp_iff)
  have "exp bv \<le> 1 / 6" using assms by (simp add: region_def)
  then have "exp bv < 1" by linarith
  then have "bv < 0" by (simp only: exp_less_one_iff)
  then have n0: "\<not> 0 < bv" by simp
  have hp: "1 / 2 < sigmoid1 (2 * w + bv)" using p unfolding sigmoid1_gt_half_iff .
  have n: "\<not> 1 / 2 < sigmoid1 bv" using n0 unfolding sigmoid1_gt_half_iff .
  have w2: "w + w + bv = 2 * w + bv" by simp
  show "predict (m\<lparr>weights := Some [w, w], bias := Some bv\<rparr>)
           \<lparr>n_cols = 2, rows = [[1, 1]]\<rparr> = Inr [1]"
    using hp by (simp add: predict_def forward_def dot_mv_def inner_def sigmoid_def w2 t)
  show "predict (m\<lparr>weights := Some [w, w], bias := Some bv\<rparr>)
           \<lparr>n_cols = 2, rows = [[0, 0]]\<rparr> = Inr [0]"
    using n by (simp add: predict_def forward_def dot_mv_def inner_def sigmoid_def t)
qed

lemma fit_and:
  "\<exists>st. fit (init (1 / 10) 1000 None (1 / 2)) X_and y_and None None None pl =
     Inr (init (1 / 10) 1000 None (1 / 2)
            \<lparr>weights := Some [fst ((and_step ^^ 1000) (0, 0)), fst ((and_step ^^ 1000) (0, 0))],
             bias := Some (snd ((and_step ^^ 1000) (0, 0)))\<rparr>, st)"
proof -
  let ?m = "init (1 / 10) 1000 None (1 / 2)"
  let ?q = "(and_step ^^ 1000) (0, 0)"
  have lr: "learning_rate ?m = 1 / 10" and mi: "nat (max_iteration ?m) = 1000"
    by (simp_all add: init_def)
  have z: "zero_params X_and = ([0, 0], 0)"
    by (simp add: zero_params_def X_and_def numeral_2_eq_2)
  have ts: "train_steps X_and y_and (1 / 10) 1000 (zero_params X_and) =
      Inr ([fst ?q, fst ?q], snd ?q)"
    unfolding z by (rule train_steps_and)
  note l = fit_loop_noval[where X_val = None and y_val = None and X = X_and and y = y_and
      and pat = None and pl = pl and lr = "1 / 10" and idx = "[0..<1000]"
      and st = "initial_state X_and None None", unfolded initial_state_simps]
  show ?thesis
  proof (cases "fit_loop X_and y_and None None None pl (1 / 10) [0..<1000]
      (initial_state X_and None None)")
    case (Inl e)
    with l ts show ?thesis by simp
  next
    case (Inr st)
    with l ts have "params st = ([fst ?q, fst ?q], snd ?q)" by simp
    then have "self_weights st = [fst ?q, fst ?q]" and "self_bias st = snd ?q"
      by (simp_all add: params_def)
    with Inr show ?thesis by (simp add: fit_eq_Inr lr mi)
  qed
qed

lemma region_180: "region ((and_step ^^ 180) (0, 0))"
proof -
  note c1 = box_steps_sound[OF contains_start box_45]
  note c2 = box_steps_sound[OF c1 box_90]
  note c3 = box_steps_sound[OF c2 box_135]
  note c4 = box_steps_sound[OF c3 box_180]
  have "contains (42425113, 42634355, 2765932, 2786946) ((and_step ^^ 180) (0, 0))"
    using c4 by (simp add: funpow_funpow)
  then show ?thesis by (rule region_of_box)
qed

lemma region_1000: "region ((and_step ^^ 1000) (0, 0))"
proof -
  have "(and_step ^^ 1000) (0, 0) = (and_step ^^ 820) ((and_step ^^ 180) (0, 0))"
    by (simp add: funpow_funpow)
  then show ?thesis using region_steps[OF region_180] by simp
qed

section \<open>The activation function\<close>

text \<open>
  C9 as stated fails for the program: on 64-bit floats the sigmoid of 37 is exactly 1.0,
  because \<open>exp (- 37)\<close> is below half the spacing of the floats at 1 and \<open>1 + exp (- 37)\<close>
  rounds to 1; and the sigmoid of \<open>- 1024\<close> is exactly 0.0, because \<open>exp 1024\<close> overflows.
\<close>

theorem sigmoid_open_interval_counterexample:
  "sigmoid64 37 = Fin 1 \<and> sigmoid64 (- 1024) = Fin 0"
  using sigmoid64_saturates sigmoid64_underflows by (rule conjI)

text \<open>
  C9, as the code has it. On floats the sigmoid of every \<open>z\<close> is a finite number of the
  closed interval from 0 to 1, within \<open>2^(-51)\<close> of the exact value; the sigmoid of 0 is
  exactly one half; and the sigmoids of \<open>z\<close> and of \<open>- z\<close> add up to 1 within \<open>2^(-50)\<close>. The
  function on the reals that the code writes down lies strictly between 0 and 1, is
  one half at 0, and its values at \<open>z\<close> and at \<open>- z\<close> add up to 1 exactly.
\<close>

theorem sigmoid_float_properties:
  "(\<exists>v v'. sigmoid64 z = Fin v \<and> 0 \<le> v \<and> v \<le> 1 \<and> \<bar>v - sigmoid1 z\<bar> \<le> 1 / 2 ^ 51 \<and>
      sigmoid64 (- z) = Fin v' \<and> \<bar>v + v' - 1\<bar> \<le> 1 / 2 ^ 50) \<and>
   sigmoid64 0 = Fin (1 / 2) \<and>
   0 < sigmoid1 z \<and> sigmoid1 z < 1 \<and> sigmoid1 0 = 1 / 2 \<and> sigmoid1 z + sigmoid1 (- z) = 1"
proof -
  from sigmoid64_symmetry[of z] obtain v v' where
    s: "sigmoid64 z = Fin v" "sigmoid64 (- z) = Fin v'" "\<bar>v + v' - 1\<bar> \<le> 1 / 2 ^ 50"
    by blast
  from sigmoid64_range[of z] s(1) have r: "0 \<le> v" "v \<le> 1" by auto
  from sigmoid64_error[of z] s(1) have e: "\<bar>v - sigmoid1 z\<bar> \<le> 1 / 2 ^ 51" by auto
  have c: "sigmoid1 0 = 1 / 2" unfolding sigmoid1_def by simp
  from s r e have "\<exists>v v'. sigmoid64 z = Fin v \<and> 0 \<le> v \<and> v \<le> 1 \<and>
      \<bar>v - sigmoid1 z\<bar> \<le> 1 / 2 ^ 51 \<and> sigmoid64 (- z) = Fin v' \<and> \<bar>v + v' - 1\<bar> \<le> 1 / 2 ^ 50"
    by blast
  with sigmoid64_zero sigmoid1_bounds[of z] c sigmoid1_symmetry[of z] show ?thesis
    by (simp only: simp_thms)
qed

section \<open>Prediction\<close>

text \<open>
  C6. For a fitted model, \<open>predict\<close> returns one label per test sample, and the label of
  a sample is 1 exactly when its probability \<open>sigmoid(x \<cdot> weights + bias)\<close> is strictly
  greater than the threshold; a probability equal to the threshold gives the label 0.
\<close>

theorem predict_threshold:
  assumes "weights m = Some wv" and "bias m = Some bv" and "predict m X_test = Inr labels"
  shows "length labels = n_rows X_test \<and>
    (\<forall>i<n_rows X_test.
       labels ! i = (if sigmoid1 (inner (rows X_test ! i) wv + bv) > threshold m then 1 else 0) \<and>
       (sigmoid1 (inner (rows X_test ! i) wv + bv) = threshold m \<longrightarrow> labels ! i = 0))"
proof -
  from assms obtain yp where
    fw: "forward X_test wv bv = Inr yp" and
    lb: "labels = map (\<lambda>i. if i > threshold m then 1 else 0) yp"
    unfolding predict_def by (auto simp: bind_eq_Inr)
  from fw have yp: "yp = map (\<lambda>r. sigmoid1 (inner r wv + bv)) (rows X_test)"
    by (simp add: forward_eq_Inr)
  show ?thesis unfolding lb yp by (simp add: n_rows_def)
qed

theorem predict_threshold_witness:
  "predict \<lparr>weights = Some [1], bias = Some 0, threshold = 1/2, learning_rate = 1/100,
            max_iteration = 3, patience = None\<rparr> X_one = Inr [1, 0] \<and>
   sigmoid1 (inner (rows X_one ! 1) [1] + 0) = 1/2 \<and> [1, 0::int] ! 1 = 0"
proof -
  let ?m = "\<lparr>weights = Some [1], bias = Some 0, threshold = 1/2, learning_rate = 1/100,
            max_iteration = 3, patience = None\<rparr>"
  have e: "exp (- 1 :: real) < 1" by simp
  have "1 / (1 + exp (- 1 :: real)) > 1 / 2"
    by (rule divide_strict_left_mono) (use e in \<open>simp_all add: add_pos_pos\<close>)
  then have s1: "sigmoid1 1 > 1/2" unfolding sigmoid1_def .
  have p: "predict ?m X_one = Inr [1, 0]"
    using s1 by (simp add: predict_def forward_def dot_mv_def X_one_def inner_def sigmoid_def
        sigmoid1_def[of 0])
  from predict_threshold[where m = ?m and wv = "[1]" and bv = 0 and X_test = X_one
      and labels = "[1, 0]"] p
  show ?thesis by (simp add: n_rows_def X_one_def inner_def sigmoid1_def[of 0])
qed

section \<open>Training\<close>

text \<open>
  C7. \<open>fit\<close> is deterministic. As a HOL function it maps equal arguments to equal
  results; what the claim adds is that the result does not depend on the weights and bias
  the model holds when \<open>fit\<close> is called, since both are set to zero first: any earlier
  parameters \<open>w0\<close>, \<open>b0\<close> are forgotten, and fitting the fitted model again on the same
  inputs returns the same model and the same trace.
\<close>

theorem fit_deterministic:
  "fit (m\<lparr>weights := w0, bias := b0\<rparr>) X y X_val y_val pat pl = fit m X y X_val y_val pat pl \<and>
   (\<forall>m1 st. fit m X y X_val y_val pat pl = Inr (m1, st) \<longrightarrow>
      fit m1 X y X_val y_val pat pl = Inr (m1, st))"
proof (intro conjI allI impI)
  show "fit (m\<lparr>weights := w0, bias := b0\<rparr>) X y X_val y_val pat pl =
        fit m X y X_val y_val pat pl"
    by (rule fit_forgets_parameters)
next
  fix m1 st assume f: "fit m X y X_val y_val pat pl = Inr (m1, st)"
  then have m1: "m1 = m\<lparr>weights := Some (self_weights st), bias := Some (self_bias st)\<rparr>"
    by (simp add: fit_eq_Inr)
  have "fit m1 X y X_val y_val pat pl = fit m X y X_val y_val pat pl"
    unfolding m1 by (rule fit_forgets_parameters)
  with f show "fit m1 X y X_val y_val pat pl = Inr (m1, st)" by (simp only:)
qed

theorem fit_deterministic_witness:
  "fit (init (1/100) 3 None (1/2)\<lparr>weights := Some [5], bias := Some 7\<rparr>) X_flat y_flat
       (Some Xv_flat) (Some yv_flat) (Some 1) True =
   fit (init (1/100) 3 None (1/2)) X_flat y_flat (Some Xv_flat) (Some yv_flat) (Some 1) True \<and>
   fit \<lparr>weights = Some [0], bias = Some 0, threshold = 1/2, learning_rate = 1/100,
            max_iteration = 3, patience = None\<rparr>
       X_flat y_flat (Some Xv_flat) (Some yv_flat) (Some 1) True =
     Inr (\<lparr>weights = Some [0], bias = Some 0, threshold = 1/2, learning_rate = 1/100,
            max_iteration = 3, patience = None\<rparr>,
          \<lparr>self_weights = [0], self_bias = 0, best_loss = Fin (ln 2), no_improvement_count = 1,
           train_losses = [Fin (ln 2)], val_losses = Some [Fin (ln 2)],
           stopped_early = Some 2\<rparr>)"
proof -
  note d = fit_deterministic[where m = "init (1/100) 3 None (1/2)" and ?w0.0 = "Some [5]"
      and ?b0.0 = "Some 7" and X = X_flat and y = y_flat and X_val = "Some Xv_flat"
      and y_val = "Some yv_flat" and pat = "Some 1" and pl = True]
  note a = d[THEN conjunct1]
  note b = d[THEN conjunct2, rule_format, OF fit_flat_stop]
  from a b show ?thesis by (rule conjI)
qed

text \<open>
  C8. Validation runs only when both \<open>X_val\<close> and \<open>y_val\<close> are given. If one of them is
  missing, \<open>fit\<close> behaves as a call with neither and without patience: it fails exactly
  when \<open>max_iteration\<close> plain training iterations fail, and otherwise its parameters are
  those after \<open>max_iteration\<close> updates, no validation loss is recorded, the bookkeeping
  of early stopping is untouched, no early stop is reported, and the printed training
  losses are one per iteration index divisible by 100.
\<close>

theorem fit_without_validation:
  assumes "X_val = None \<or> y_val = None"
  shows "fit m X y X_val y_val pat pl = fit m X y None None None pl \<and>
    (case fit m X y X_val y_val pat pl of
       Inl e \<Rightarrow>
         train_steps X y (learning_rate m) (nat (max_iteration m)) (zero_params X) = Inl e
     | Inr (m', st) \<Rightarrow>
         train_steps X y (learning_rate m) (nat (max_iteration m)) (zero_params X) =
           Inr (self_weights st, self_bias st) \<and>
         trained m' (self_weights st, self_bias st) \<and>
         val_losses st = None \<and> best_loss st = PInf \<and> no_improvement_count st = 0 \<and>
         stopped_early st = None \<and>
         length (train_losses st) =
           (if pl then length (filter (\<lambda>i. i mod 100 = 0) [0..<nat (max_iteration m)]) else 0))"
proof
  show "fit m X y X_val y_val pat pl = fit m X y None None None pl"
    unfolding fit_def
    by (simp add: fit_loop_noval_eq[OF assms] initial_state_noval[OF assms])
next
  let ?idx = "[0..<nat (max_iteration m)]"
  let ?st0 = "initial_state X X_val y_val"
  have v0: "val_losses ?st0 = None" using assms by (auto simp: initial_state_def)
  note l = fit_loop_noval[OF assms, where X = X and y = y and pat = pat and pl = pl
      and lr = "learning_rate m" and idx = ?idx and st = ?st0,
      unfolded initial_state_simps]
  show "case fit m X y X_val y_val pat pl of
       Inl e \<Rightarrow>
         train_steps X y (learning_rate m) (nat (max_iteration m)) (zero_params X) = Inl e
     | Inr (m', st) \<Rightarrow>
         train_steps X y (learning_rate m) (nat (max_iteration m)) (zero_params X) =
           Inr (self_weights st, self_bias st) \<and>
         trained m' (self_weights st, self_bias st) \<and>
         val_losses st = None \<and> best_loss st = PInf \<and> no_improvement_count st = 0 \<and>
         stopped_early st = None \<and>
         length (train_losses st) =
           (if pl then length (filter (\<lambda>i. i mod 100 = 0) [0..<nat (max_iteration m)]) else 0)"
  proof (cases "fit_loop X y X_val y_val pat pl (learning_rate m) ?idx ?st0")
    case (Inl e)
    then have "fit m X y X_val y_val pat pl = Inl e" by (simp add: fit_eq_Inl)
    with l Inl show ?thesis by (simp add: initial_state_simps)
  next
    case (Inr st)
    then have "fit m X y X_val y_val pat pl =
        Inr (m\<lparr>weights := Some (self_weights st), bias := Some (self_bias st)\<rparr>, st)"
      by (simp add: fit_eq_Inr)
    with l Inr v0 show ?thesis
      by (simp add: initial_state_simps trained_def params_def)
  qed
qed

theorem fit_without_validation_witness:
  "fit (init (1/100) 3 None (1/2)) X_flat y_flat (Some Xv_flat) None (Some 1) True =
     fit (init (1/100) 3 None (1/2)) X_flat y_flat None None None True \<and>
    (case fit (init (1/100) 3 None (1/2)) X_flat y_flat (Some Xv_flat) None (Some 1) True of
       Inl e \<Rightarrow>
         train_steps X_flat y_flat (learning_rate (init (1/100) 3 None (1/2)))
           (nat (max_iteration (init (1/100) 3 None (1/2)))) (zero_params X_flat) = Inl e
     | Inr (m', st) \<Rightarrow>
         train_steps X_flat y_flat (learning_rate (init (1/100) 3 None (1/2)))
           (nat (max_iteration (init (1/100) 3 None (1/2)))) (zero_params X_flat) =
           Inr (self_weights st, self_bias st) \<and>
         trained m' (self_weights st, self_bias st) \<and>
         val_losses st = None \<and> best_loss st = PInf \<and> no_improvement_count st = 0 \<and>
         stopped_early st = None \<and>
         length (train_losses st) =
           (if True then length (filter (\<lambda>i. i mod 100 = 0)
              [0..<nat (max_iteration (init (1/100) 3 None (1/2)))]) else 0))"
  by (rule fit_without_validation) simp

text \<open>
  C10. When \<open>fit\<close> reports an early stop at iteration \<open>i\<close> (the message names \<open>i + 1\<close>),
  the loop has left before the update of that iteration: \<open>i\<close> is below \<open>max_iteration\<close>
  and the final weights and bias are those after exactly \<open>i\<close> updates, the ones of the
  iterations \<open>0\<close> to \<open>i - 1\<close>.
\<close>

theorem early_stop_keeps_parameters:
  assumes "fit m X y X_val y_val pat pl = Inr (m', st)" and "stopped_early st = Some n"
  shows "\<exists>i. n = Suc i \<and> i < nat (max_iteration m) \<and>
           train_steps X y (learning_rate m) i (zero_params X) =
             Inr (self_weights st, self_bias st) \<and>
           trained m' (self_weights st, self_bias st)"
proof -
  from assms(1) have
    l: "fit_loop X y X_val y_val pat pl (learning_rate m) [0..<nat (max_iteration m)]
          (initial_state X X_val y_val) = Inr st"
    and m': "m' = m\<lparr>weights := Some (self_weights st), bias := Some (self_bias st)\<rparr>"
    by (simp_all add: fit_eq_Inr)
  from fit_loop_result[OF l initial_state_simps(4)] assms(2)
  obtain pre i post where
    s: "[0..<nat (max_iteration m)] = pre @ i # post" "n = Suc i"
    "train_steps X y (learning_rate m) (length pre) (zero_params X) = Inr (params st)"
    by (auto simp: initial_state_simps)
  from upt_split[OF s(1)] have "i = length pre" "i < nat (max_iteration m)" by simp_all
  with s m' show ?thesis by (simp add: params_def trained_def)
qed

theorem early_stop_keeps_parameters_witness:
  "\<exists>i. 2 = Suc i \<and> i < nat (max_iteration (init (1/100) 3 None (1/2))) \<and>
     train_steps X_flat y_flat (learning_rate (init (1/100) 3 None (1/2))) i
         (zero_params X_flat) =
       Inr (self_weights \<lparr>self_weights = [0], self_bias = 0, best_loss = Fin (ln 2),
              no_improvement_count = 1, train_losses = [Fin (ln 2)],
              val_losses = Some [Fin (ln 2)], stopped_early = Some 2\<rparr>,
            self_bias \<lparr>self_weights = [0], self_bias = 0, best_loss = Fin (ln 2),
              no_improvement_count = 1, train_losses = [Fin (ln 2)],
              val_losses = Some [Fin (ln 2)], stopped_early = Some 2\<rparr>) \<and>
     trained \<lparr>weights = Some [0], bias = Some 0, threshold = 1/2, learning_rate = 1/100,
            max_iteration = 3, patience = None\<rparr>
       (self_weights \<lparr>self_weights = [0], self_bias = 0, best_loss = Fin (ln 2),
              no_improvement_count = 1, train_losses = [Fin (ln 2)],
              val_losses = Some [Fin (ln 2)], stopped_early = Some 2\<rparr>,
        self_bias \<lparr>self_weights = [0], self_bias = 0, best_loss = Fin (ln 2),
              no_improvement_count = 1, train_losses = [Fin (ln 2)],
              val_losses = Some [Fin (ln 2)], stopped_early = Some 2\<rparr>)"
  by (rule early_stop_keeps_parameters[OF fit_flat_stop]) simp

text \<open>
  C2. Early stopping. Take a call of \<open>fit\<close> with validation data and a patience \<open>p\<close>
  (a positive integer, as the configuration defines it). Let \<open>vs\<close> be the validation
  losses of the iterations \<open>0\<close> to \<open>s + p - 1\<close>, all below \<open>max_iteration\<close>, and suppose
  that none of the \<open>p\<close> consecutive iterations from \<open>s\<close> on improves strictly on the
  best loss seen before it. Then \<open>fit\<close> returns, having stopped at an iteration \<open>i\<close>
  of that range, so before \<open>max_iteration\<close> iterations are complete; \<open>i\<close> is the first
  iteration at which the counter (reset to 0 by a strict improvement, incremented
  otherwise) reaches \<open>p\<close>; the counter and the best loss of the loop are those of the
  bookkeeping the specification describes; and the parameters are those after \<open>i\<close>
  updates.
\<close>

theorem early_stopping:
  assumes p: "0 < p"
    and vs: "map (val_loss_at X y Xv yv (learning_rate m)) [0..<s + nat p] = map Inr vs"
    and len: "s + nat p \<le> nat (max_iteration m)"
    and window: "\<forall>k. s \<le> k \<and> k < s + nat p \<longrightarrow>
                   \<not> np_less (vs ! k) (best_seen (take k vs))"
  shows "\<exists>m' st i. fit m X y (Some Xv) (Some yv) (Some p) pl = Inr (m', st) \<and>
           stopped_early st = Some (Suc i) \<and> i < s + nat p \<and>
           p \<le> int (counter (take (Suc i) vs)) \<and>
           (\<forall>k<i. int (counter (take (Suc k) vs)) < p) \<and>
           no_improvement_count st = counter (take (Suc i) vs) \<and>
           best_loss st = best_seen (take (Suc i) vs) \<and>
           train_steps X y (learning_rate m) i (zero_params X) =
             Inr (self_weights st, self_bias st) \<and>
           trained m' (self_weights st, self_bias st)"
proof -
  let ?n = "s + nat p"
  let ?P = "\<lambda>i. p \<le> int (counter (take (Suc i) vs))"
  have lv: "length vs = ?n"
    using map_eq_imp_length_eq[OF vs] by simp
  have nth: "val_loss_at X y Xv yv (learning_rate m) k = Inr (vs ! k)" if "k < ?n" for k
  proof -
    have "map (val_loss_at X y Xv yv (learning_rate m)) [0..<?n] ! k = map Inr vs ! k"
      using vs by simp
    with that lv show ?thesis by simp
  qed
  have "counter (take ?n vs) = counter (take s vs) + nat p"
    using counter_window[of s "nat p" vs] lv window by simp
  moreover have "Suc (?n - 1) = ?n" using p by simp
  ultimately have "?P (?n - 1)" using p by simp
  define i where "i = (LEAST i. ?P i)"
  have Pi: "?P i" unfolding i_def using \<open>?P (?n - 1)\<close> by (rule LeastI)
  have ile: "i \<le> ?n - 1" unfolding i_def using \<open>?P (?n - 1)\<close> by (rule Least_le)
  have min: "\<not> ?P k" if "k < i" for k using that not_less_Least unfolding i_def by blast
  have ilt: "i < ?n" using ile p by simp
  let ?idx = "[0..<nat (max_iteration m)]"
  let ?st0 = "initial_state X (Some Xv) (Some yv)"
  have h1: "i < length ?idx" using ilt len by simp
  have h2: "i < length vs" using ilt lv by simp
  have h3: "\<forall>k\<le>i. bind (train_steps X y (learning_rate m) k (params ?st0))
                     (val_loss_of X y Xv yv) = Inr (vs ! k)"
  proof (intro allI impI)
    fix k assume "k \<le> i"
    with ilt have "k < ?n" by simp
    from nth[OF this] show "bind (train_steps X y (learning_rate m) k (params ?st0))
                     (val_loss_of X y Xv yv) = Inr (vs ! k)"
      by (simp add: val_loss_at_def initial_state_simps)
  qed
  have h4: "\<forall>k<i. \<not> should_stop (Some p)
      (snd (foldl track (best_loss ?st0, no_improvement_count ?st0) (take (Suc k) vs)))"
    using min by (simp add: initial_state_simps should_stop_Some counter_def)
  have h5: "should_stop (Some p)
      (snd (foldl track (best_loss ?st0, no_improvement_count ?st0) (take (Suc i) vs)))"
    using Pi p by (simp add: initial_state_simps should_stop_Some counter_def)
  from fit_loop_stops[OF h1 h2 h3 h4 h5, of pl] obtain st where
    r: "fit_loop X y (Some Xv) (Some yv) (Some p) pl (learning_rate m) ?idx ?st0 = Inr st"
       "stopped_early st = Some (Suc (?idx ! i))"
       "train_steps X y (learning_rate m) i (params ?st0) = Inr (params st)"
       "(best_loss st, no_improvement_count st) =
          foldl track (best_loss ?st0, no_improvement_count ?st0) (take (Suc i) vs)"
    by blast
  let ?m' = "m\<lparr>weights := Some (self_weights st), bias := Some (self_bias st)\<rparr>"
  have f: "fit m X y (Some Xv) (Some yv) (Some p) pl = Inr (?m', st)"
    using r(1) by (simp add: fit_eq_Inr)
  have se: "stopped_early st = Some (Suc i)" using r(2) h1 by simp
  have bc: "no_improvement_count st = counter (take (Suc i) vs)"
    "best_loss st = best_seen (take (Suc i) vs)"
    using r(4) by (simp_all add: initial_state_simps counter_def best_seen_def prod_eq_iff)
  have ts: "train_steps X y (learning_rate m) i (zero_params X) =
             Inr (self_weights st, self_bias st)"
    using r(3) unfolding initial_state_simps by (simp add: params_def)
  have tr: "trained ?m' (self_weights st, self_bias st)" by (simp add: trained_def)
  have mn: "\<forall>k<i. int (counter (take (Suc k) vs)) < p"
    using min by (simp add: not_le)
  from f se ilt Pi mn bc ts tr show ?thesis by blast
qed

theorem early_stopping_witness:
  "\<exists>m' st i. fit (init (1/100) 3 None (1/2)) X_flat y_flat (Some Xv_flat) (Some yv_flat)
                (Some 1) True = Inr (m', st) \<and>
           stopped_early st = Some (Suc i) \<and> i < 1 + nat 1 \<and>
           1 \<le> int (counter (take (Suc i) [Fin (ln 2), Fin (ln 2)])) \<and>
           (\<forall>k<i. int (counter (take (Suc k) [Fin (ln 2), Fin (ln 2)])) < 1) \<and>
           no_improvement_count st = counter (take (Suc i) [Fin (ln 2), Fin (ln 2)]) \<and>
           best_loss st = best_seen (take (Suc i) [Fin (ln 2), Fin (ln 2)]) \<and>
           train_steps X_flat y_flat (learning_rate (init (1/100) 3 None (1/2))) i
               (zero_params X_flat) =
             Inr (self_weights st, self_bias st) \<and>
           trained m' (self_weights st, self_bias st)"
proof -
  have a: "0 < (1::int)" by simp
  have b: "map (val_loss_at X_flat y_flat Xv_flat yv_flat
                  (learning_rate (init (1/100) 3 None (1/2)))) [0..<1 + nat 1] =
           map Inr [Fin (ln 2), Fin (ln 2)]"
    by (simp add: vla_flat upt_rec)
  have c: "1 + nat 1 \<le> nat (max_iteration (init (1/100) 3 None (1/2)))"
    by (simp add: init_def)
  have d: "\<forall>k. 1 \<le> k \<and> k < 1 + nat 1 \<longrightarrow>
             \<not> np_less ([Fin (ln 2), Fin (ln 2)] ! k) (best_seen (take k [Fin (ln 2), Fin (ln 2)]))"
  proof (intro allI impI)
    fix k :: nat assume "1 \<le> k \<and> k < 1 + nat 1"
    then have "k = 1" by simp
    then show "\<not> np_less ([Fin (ln 2), Fin (ln 2)] ! k)
                  (best_seen (take k [Fin (ln 2), Fin (ln 2)]))"
      by (simp add: best_seen_def)
  qed
  from early_stopping[OF a b c d] show ?thesis .
qed

text \<open>
  C4. An iteration of \<open>fit\<close> that updates the parameters performs one step of batch
  gradient descent on the average binary cross-entropy loss. For a well-shaped \<open>X_train\<close>
  with \<open>N\<close> rows and \<open>N\<close> labels: the training loss of the iteration is \<open>bce\<close>; weight
  \<open>j\<close> becomes \<open>w\<^sub>j - learning_rate * dw\<^sub>j\<close> with
  \<open>dw\<^sub>j = (1/N) * \<Sum>\<^sub>i X\<^sub>i\<^sub>j * (y_pred\<^sub>i - y\<^sub>i)\<close>, the bias becomes
  \<open>bias - learning_rate * db\<close> with \<open>db = (1/N) * \<Sum>\<^sub>i (y_pred\<^sub>i - y\<^sub>i)\<close>, where
  \<open>y_pred\<^sub>i\<close> is the sigmoid of the score of sample \<open>i\<close>; and \<open>dw\<^sub>j\<close> and \<open>db\<close> are the
  partial derivatives of \<open>bce\<close> in weight \<open>j\<close> and in the bias.
\<close>

theorem gradient_descent_update:
  assumes "fit_iter X y X_val y_val pat pl lr i st = Inr (Continue st')"
    and "well_shaped X" and "length y = n_rows X"
  shows "bind (forward X (self_weights st) (self_bias st)) (mean_log_loss y) =
           Inr (Fin (bce X y (self_weights st) (self_bias st))) \<and>
         length (self_weights st') = n_cols X \<and>
         (\<forall>j<n_cols X.
            self_weights st' ! j =
              self_weights st ! j - lr * grad_w X y (self_weights st) (self_bias st) j \<and>
            ((\<lambda>t. bce X y ((self_weights st)[j := t]) (self_bias st)) has_real_derivative
               grad_w X y (self_weights st) (self_bias st) j) (at (self_weights st ! j))) \<and>
         self_bias st' = self_bias st - lr * grad_b X y (self_weights st) (self_bias st) \<and>
         ((\<lambda>t. bce X y (self_weights st) t) has_real_derivative
            grad_b X y (self_weights st) (self_bias st)) (at (self_bias st))"
proof -
  let ?w = "self_weights st" and ?b = "self_bias st"
  from fit_iter_cases[OF assms(1)]
  have ts: "train_step X y lr (?w, ?b) = Inr (self_weights st', self_bias st')"
    by (simp add: params_def)
  note f = train_step_formula[OF ts assms(2,3)]
  from ts obtain yp where fw: "forward X ?w ?b = Inr yp"
    and gd: "gradient_descend X y lr yp (?w, ?b) = Inr (self_weights st', self_bias st')"
    unfolding train_step_def by (auto simp: bind_eq_Inr)
  from fw have nc: "n_cols X = length ?w" by (simp add: forward_eq_Inr)
  from gd have n0: "n_rows X \<noteq> 0"
    unfolding gradient_descend_def by (auto split: if_splits)
  have 1: "bind (forward X ?w ?b) (mean_log_loss y) = Inr (Fin (bce X y ?w ?b))"
    using mean_log_loss_bce[OF fw assms(2,3) n0] by (simp add: fw)
  have 2: "\<forall>j<n_cols X.
            self_weights st' ! j = ?w ! j - lr * grad_w X y ?w ?b j \<and>
            ((\<lambda>t. bce X y (?w[j := t]) ?b) has_real_derivative grad_w X y ?w ?b j) (at (?w ! j))"
    using f nc by (auto intro: bce_weight_deriv)
  from 1 2 f bce_bias_deriv show ?thesis by blast
qed

theorem gradient_descent_update_witness:
  "self_weights st_one ! 0 =
     self_weights (initial_state X_one None None) ! 0 -
       (1/100) * grad_w X_one y_one (self_weights (initial_state X_one None None))
                   (self_bias (initial_state X_one None None)) 0 \<and>
   self_bias st_one =
     self_bias (initial_state X_one None None) -
       (1/100) * grad_b X_one y_one (self_weights (initial_state X_one None None))
                   (self_bias (initial_state X_one None None)) \<and>
   grad_w X_one y_one [0] 0 0 = - (1/4) \<and> self_weights st_one = [1/400]"
proof -
  have ws: "well_shaped X_one" by (simp add: well_shaped_def X_one_def)
  have ly: "length y_one = n_rows X_one" by (simp add: y_one_def n_rows_def X_one_def)
  note u = gradient_descent_update[OF fit_iter_one ws ly]
  have n: "(0::nat) < n_cols X_one" by (simp add: X_one_def)
  from u n have a: "self_weights st_one ! 0 =
     self_weights (initial_state X_one None None) ! 0 -
       (1/100) * grad_w X_one y_one (self_weights (initial_state X_one None None))
                   (self_bias (initial_state X_one None None)) 0"
    by blast
  from u have b: "self_bias st_one =
     self_bias (initial_state X_one None None) -
       (1/100) * grad_b X_one y_one (self_weights (initial_state X_one None None))
                   (self_bias (initial_state X_one None None))"
    by blast
  have c: "grad_w X_one y_one [0] 0 0 = - (1/4)"
    by (simp add: grad_w_def score_def n_rows_def X_one_def y_one_def sigmoid1_def
        lessThan_Suc eval_nat_numeral)
  have d: "self_weights st_one = [1/400]" by (simp add: st_one_def)
  from a b c d show ?thesis by blast
qed

text \<open>
  C5, as the code has it. Let the label vector have a length that is neither the number
  \<open>N\<close> of rows of \<open>X_train\<close> nor 1, and let there be a first iteration (\<open>max_iteration\<close> is
  positive). If \<open>N\<close> is not 1, or a validation array is missing, or no patience is given,
  the first iteration raises \<open>ValueError\<close>, and so does \<open>fit\<close>. In general the first
  iteration raises \<open>ValueError\<close> unless its early-stopping check fires. That needs \<open>N = 1\<close>
  (the single prediction then broadcasts against the labels, and the mismatch would
  only surface in the gradient); \<open>fit\<close> then returns with the zero parameters and reports
  a stop at iteration 1.
\<close>

theorem shape_mismatch_first_iteration:
  assumes "0 < max_iteration m" and "length y \<noteq> n_rows X" and "length y \<noteq> 1"
  shows "(n_rows X \<noteq> 1 \<or> X_val = None \<or> y_val = None \<or> pat = None \<longrightarrow>
            fit_iter X y X_val y_val pat pl (learning_rate m) 0 (initial_state X X_val y_val) =
              Inl ValueError \<and>
            fit m X y X_val y_val pat pl = Inl ValueError) \<and>
         (if first_check_stops X y X_val y_val pat
          then n_rows X = 1 \<and>
            (\<exists>st. fit_iter X y X_val y_val pat pl (learning_rate m) 0
                     (initial_state X X_val y_val) = Inr (Break st) \<and>
                  fit m X y X_val y_val pat pl =
                    Inr (m\<lparr>weights := Some (self_weights st), bias := Some (self_bias st)\<rparr>, st) \<and>
                  stopped_early st = Some 1 \<and> params st = zero_params X)
          else fit_iter X y X_val y_val pat pl (learning_rate m) 0
                 (initial_state X X_val y_val) = Inl ValueError \<and>
               fit m X y X_val y_val pat pl = Inl ValueError)"
proof -
  note f = first_iteration_mismatch[OF assms(2,3), of X_val y_val pat pl "learning_rate m"]
  have b: "if first_check_stops X y X_val y_val pat
          then n_rows X = 1 \<and>
            (\<exists>st. fit_iter X y X_val y_val pat pl (learning_rate m) 0
                     (initial_state X X_val y_val) = Inr (Break st) \<and>
                  fit m X y X_val y_val pat pl =
                    Inr (m\<lparr>weights := Some (self_weights st), bias := Some (self_bias st)\<rparr>, st) \<and>
                  stopped_early st = Some 1 \<and> params st = zero_params X)
          else fit_iter X y X_val y_val pat pl (learning_rate m) 0
                 (initial_state X X_val y_val) = Inl ValueError \<and>
               fit m X y X_val y_val pat pl = Inl ValueError"
  proof (cases "first_check_stops X y X_val y_val pat")
    case True
    with f obtain st where st: "n_rows X = 1"
      "fit_iter X y X_val y_val pat pl (learning_rate m) 0 (initial_state X X_val y_val) =
         Inr (Break st)"
      "stopped_early st = Some 1" "params st = zero_params X"
      by auto
    from fit_first_Break[OF assms(1) st(2)] st True show ?thesis by auto
  next
    case False
    with f have "fit_iter X y X_val y_val pat pl (learning_rate m) 0
        (initial_state X X_val y_val) = Inl ValueError" by simp
    with fit_first_Inl[OF assms(1) this] False show ?thesis by simp
  qed
  have a: "\<not> first_check_stops X y X_val y_val pat"
    if "n_rows X \<noteq> 1 \<or> X_val = None \<or> y_val = None \<or> pat = None"
  proof
    assume s: "first_check_stops X y X_val y_val pat"
    then obtain Xv yv v where v: "X_val = Some Xv" "y_val = Some yv"
        "val_loss_of X y Xv yv (zero_params X) = Inr v"
        "should_stop pat (snd (track (PInf, 0) v))"
      unfolding first_check_stops_cases by blast
    have "n_rows X = 1" by (rule val_loss_of_rows[OF v(3) assms(2,3)])
    moreover have "pat \<noteq> None" using v(4) by (cases pat) (simp_all add: should_stop_def)
    ultimately show False using that v by simp
  qed
  from a b show ?thesis by auto
qed

theorem shape_mismatch_first_iteration_witness:
  "fit (init (1/100) 3 None (1/2)) X_flat [0, 1, 0] None None None True = Inl ValueError \<and>
   (\<exists>st. fit (init (1/100) 3 None (1/2)) Xv_flat y_flat (Some X_empty) (Some []) (Some 1) True =
      Inr (init (1/100) 3 None (1/2)
             \<lparr>weights := Some (self_weights st), bias := Some (self_bias st)\<rparr>, st) \<and>
      stopped_early st = Some 1 \<and> params st = zero_params Xv_flat)"
proof -
  let ?m = "init (1/100) 3 None (1/2)"
  have m: "0 < max_iteration ?m" by (simp add: init_def)
  have l1: "length [0, 1, 0 :: real] \<noteq> n_rows X_flat" "length [0, 1, 0 :: real] \<noteq> 1"
    by (simp_all add: n_rows_def X_flat_def)
  have l2: "length y_flat \<noteq> n_rows Xv_flat" "length y_flat \<noteq> 1"
    by (simp_all add: n_rows_def Xv_flat_def y_flat_def)
  have "forward X_empty [0] 0 = Inr []"
    by (simp add: forward_def dot_mv_def X_empty_def sigmoid_def)
  moreover have "mean_log_loss [] [] = Inr NaN"
    by (simp add: mean_log_loss_def broadcast_def np_mean_def)
  moreover have "\<exists>l. mean_log_loss y_flat [1/2] = Inr l"
    by (simp add: mean_log_loss_def broadcast_def y_flat_def)
  moreover have "zero_params Xv_flat = ([0], 0)"
    by (simp add: zero_params_def Xv_flat_def)
  ultimately have "val_loss_of Xv_flat y_flat X_empty [] (zero_params Xv_flat) = Inr NaN"
    unfolding val_loss_of_def using fwv_flat by auto
  then have s: "first_check_stops Xv_flat y_flat (Some X_empty) (Some []) (Some 1)"
    by (simp add: first_check_stops_def should_stop_def)
  from shape_mismatch_first_iteration[OF m l1, of None None None True, THEN conjunct1]
  have a: "fit ?m X_flat [0, 1, 0] None None None True = Inl ValueError" by simp
  from shape_mismatch_first_iteration[OF m l2, of "Some X_empty" "Some []" "Some 1" True,
      THEN conjunct2] s
  have "\<exists>st. fit ?m Xv_flat y_flat (Some X_empty) (Some []) (Some 1) True =
      Inr (?m\<lparr>weights := Some (self_weights st), bias := Some (self_bias st)\<rparr>, st) \<and>
      stopped_early st = Some 1 \<and> params st = zero_params Xv_flat"
    by auto
  with a show ?thesis by blast
qed

text \<open>
  C5 as stated fails: numpy broadcasts a label vector of length 1 against any number of
  rows. With two rows and one label, \<open>fit\<close> returns normally.
\<close>

theorem shape_mismatch_counterexample:
  "n_rows X_flat = 2 \<and> length [0::real] = 1 \<and>
   fit (init (1/100) 1 None (1/2)) X_flat [0] None None None True =
     Inr (\<lparr>weights = Some [0], bias = Some (- (1/200)), threshold = 1/2, learning_rate = 1/100,
            max_iteration = 1, patience = None\<rparr>,
          \<lparr>self_weights = [0], self_bias = - (1/200), best_loss = PInf, no_improvement_count = 0,
           train_losses = [Fin (ln 2)], val_losses = None, stopped_early = None\<rparr>)"
proof -
  have l: "mean_log_loss [0] [1/2, 1/2] = Inr (Fin (ln 2))"
    by (simp add: mean_log_loss_def broadcast_def np_mean_def ln_div)
  have g: "gradient_descend X_flat [0] (1/100) [1/2, 1/2] ([0], 0) = Inr ([0], - (1/200))"
    by (simp add: gradient_descend_def broadcast_def n_rows_def X_flat_def
      dot_tv_def column_def inner_def)
  have "fit (init (1/100) 1 None (1/2)) X_flat [0] None None None True =
     Inr (\<lparr>weights = Some [0], bias = Some (- (1/200)), threshold = 1/2, learning_rate = 1/100,
            max_iteration = 1, patience = None\<rparr>,
          \<lparr>self_weights = [0], self_bias = - (1/200), best_loss = PInf, no_improvement_count = 0,
           train_losses = [Fin (ln 2)], val_losses = None, stopped_early = None\<rparr>)"
    by (simp add: fit_def init_def initial_state_def X_flat_def[THEN arg_cong[where f=n_cols]]
      fit_iter_def fw_flat l g Let_def)
  then show ?thesis by (simp add: n_rows_def X_flat_def)
qed

text \<open>
  C3. The end-to-end scenario: a model constructed with learning rate \<open>0.1\<close> and 1000
  iterations (threshold \<open>0.5\<close>, the default) and fitted on the AND data without validation
  data returns, and after it \<open>predict\<close> answers 1 on \<open>[[1, 1]]\<close> and 0 on \<open>[[0, 0]]\<close>.
  (Floats are read as reals: the statement is about the exact iteration.)
\<close>

theorem and_learned:
  "\<exists>m' st. fit (init (1 / 10) 1000 None (1 / 2)) X_and y_and None None None pl = Inr (m', st) \<and>
     predict m' \<lparr>n_cols = 2, rows = [[1, 1]]\<rparr> = Inr [1] \<and>
     predict m' \<lparr>n_cols = 2, rows = [[0, 0]]\<rparr> = Inr [0]"
proof -
  let ?m = "init (1 / 10) 1000 None (1 / 2)"
  let ?q = "(and_step ^^ 1000) (0, 0)"
  have t: "threshold ?m = 1 / 2" by (simp add: init_def)
  have r: "region (fst ?q, snd ?q)" using region_1000 by simp
  obtain st where "fit ?m X_and y_and None None None pl =
      Inr (?m\<lparr>weights := Some [fst ?q, fst ?q], bias := Some (snd ?q)\<rparr>, st)"
    using fit_and by blast
  with predict_and[OF r t] show ?thesis by blast
qed

text \<open>
  C1. The constructor stores a patience, and \<open>fit\<close> never reads it: the check of the loop
  uses the argument of \<open>fit\<close> alone. On the flat data, where the validation loss never
  improves after iteration 0, a model constructed with patience 1 and fitted without a
  patience argument runs all 3 iterations and reports no early stop, with the counter
  at 2.
\<close>

theorem constructor_patience_not_consulted:
  "fit (init (1/100) 3 (Some 1) (1/2)) X_flat y_flat (Some Xv_flat) (Some yv_flat) None True =
     Inr (\<lparr>weights = Some [0], bias = Some 0, threshold = 1/2, learning_rate = 1/100,
            max_iteration = 3, patience = Some 1\<rparr>,
          \<lparr>self_weights = [0], self_bias = 0, best_loss = Fin (ln 2), no_improvement_count = 2,
           train_losses = [Fin (ln 2)], val_losses = Some [Fin (ln 2)],
           stopped_early = None\<rparr>)"
  by (simp add: fit_def init_def upt3 initial_state_def X_flat_def[THEN arg_cong[where f=n_cols]]
      fit_iter_def fw_flat loss_flat validate_def fwv_flat lossv_flat gd_flat Let_def should_stop_def)

end
